theory Spec2Isabelle
  imports Complex_Main "HOL-Library.Word"
begin

unbundle bit_operations_syntax

section \<open>JavaScript primitives used by ipUtils.js\<close>

text \<open>
  A JavaScript string is modelled as a \<^typ>\<open>string\<close>; a character stands for one code
  unit in the range U+0000 .. U+00FF.  A JavaScript number is a double.  Every number
  this program computes is either \<open>NaN\<close> or an integer, so a number is \<open>NaN\<close> or
  \<open>Val v\<close> with \<open>v\<close> an integer.  Integers of magnitude up to \<open>2 ^ 53\<close> are doubles
  exactly; beyond that the engine keeps the nearest double, which this model does not
  follow (it keeps \<open>v\<close>), and the theorems that depend on it are stated for numbers
  below that bound.
\<close>

datatype number = NaN | Val int

text \<open>\<open>ToInt32\<close> and \<open>ToUint32\<close> keep the same 32 bits; \<open>NaN\<close> (and \<open>undefined\<close>) become 0.\<close>

fun to_word :: "number \<Rightarrow> 32 word" where
  "to_word NaN = 0"
| "to_word (Val v) = word_of_int v"

text \<open>\<open>a << n\<close>, \<open>a & b\<close>, \<open>a | b\<close> and \<open>~a\<close> return a signed 32-bit integer,
  \<open>a >>> n\<close> an unsigned one.\<close>

definition js_shl :: "number \<Rightarrow> nat \<Rightarrow> number" where
  "js_shl a n = Val (sint (push_bit (n mod 32) (to_word a)))"

definition js_ushr :: "number \<Rightarrow> nat \<Rightarrow> number" where
  "js_ushr a n = Val (uint (drop_bit (n mod 32) (to_word a)))"

definition js_and :: "number \<Rightarrow> number \<Rightarrow> number" where
  "js_and a b = Val (sint (to_word a AND to_word b))"

definition js_or :: "number \<Rightarrow> number \<Rightarrow> number" where
  "js_or a b = Val (sint (to_word a OR to_word b))"

definition js_not :: "number \<Rightarrow> number" where
  "js_not a = Val (sint (NOT (to_word a)))"

fun js_add :: "number \<Rightarrow> number \<Rightarrow> number" where
  "js_add (Val a) (Val b) = Val (a + b)"
| "js_add _ _ = NaN"

fun js_sub :: "number \<Rightarrow> number \<Rightarrow> number" where
  "js_sub (Val a) (Val b) = Val (a - b)"
| "js_sub _ _ = NaN"

text \<open>\<open>a === b\<close> on numbers: \<open>NaN\<close> is equal to nothing.\<close>

fun js_eq :: "number \<Rightarrow> number \<Rightarrow> bool" where
  "js_eq (Val a) (Val b) = (a = b)"
| "js_eq _ _ = False"

text \<open>\<open>isNaN(num) || num < 0 || num > 255\<close>\<close>

fun out_of_range :: "number \<Rightarrow> bool" where
  "out_of_range NaN = True"
| "out_of_range (Val v) = (v < 0 \<or> v > 255)"

subsection \<open>Characters\<close>

text \<open>White space and line terminators of ECMAScript among the code units below 256:
  TAB, LF, VT, FF, CR, SP and NBSP.  \<open>trim\<close> and \<open>parseInt\<close> strip the same set.\<close>

definition isWhiteSpace :: "char \<Rightarrow> bool" where
  "isWhiteSpace c = (of_char c \<in> {9, 10, 11, 12, 13, 32, 160 :: nat})"

definition isDigit :: "char \<Rightarrow> bool" where
  "isDigit c = (48 \<le> (of_char c :: nat) \<and> (of_char c :: nat) \<le> 57)"

definition digit_val :: "char \<Rightarrow> int" where
  "digit_val c = int (of_char c) - 48"

definition digit_char :: "nat \<Rightarrow> char" where
  "digit_char d = char_of (48 + d)"

subsection \<open>\<open>String.prototype.trim\<close>, \<open>split('.')\<close>, \<open>join('.')\<close>, \<open>padStart(n, '0')\<close>\<close>

definition trim :: "string \<Rightarrow> string" where
  "trim s = rev (dropWhile isWhiteSpace (rev (dropWhile isWhiteSpace s)))"

text \<open>\<open>s.split('.')\<close>: the empty string splits into one empty segment.\<close>

fun split_dot :: "string \<Rightarrow> string list" where
  "split_dot [] = [[]]"
| "split_dot (c # cs) =
     (if c = CHR ''.'' then [] # split_dot cs
      else (case split_dot cs of [] \<Rightarrow> [[c]] | p # ps \<Rightarrow> (c # p) # ps))"

fun join_dot :: "string list \<Rightarrow> string" where
  "join_dot [] = []"
| "join_dot [p] = p"
| "join_dot (p # q # ps) = p @ CHR ''.'' # join_dot (q # ps)"

definition padStart :: "nat \<Rightarrow> string \<Rightarrow> string" where
  "padStart n s = replicate (n - length s) CHR ''0'' @ s"

subsection \<open>\<open>parseInt(s, 10)\<close>\<close>

text \<open>Leading white space is skipped, one sign is read, then the longest run of decimal
  digits; whatever follows is ignored.  No digit gives \<open>NaN\<close>.\<close>

definition digits_value :: "string \<Rightarrow> int" where
  "digits_value z = foldl (\<lambda>acc c. 10 * acc + digit_val c) 0 z"

definition parseInt :: "string \<Rightarrow> number" where
  "parseInt s =
     (let s1 = dropWhile isWhiteSpace s;
          sign = (case s1 of c # _ \<Rightarrow> if c = CHR ''-'' then -1 else 1 | [] \<Rightarrow> 1);
          s2 = (case s1 of c # r \<Rightarrow> if c = CHR ''-'' \<or> c = CHR ''+'' then r else s1
                | [] \<Rightarrow> s1);
          z = takeWhile isDigit s2
      in if z = [] then NaN else Val (sign * digits_value z))"

text \<open>\<open>parseInt(s, 2)\<close>, used by \<open>binaryToIp\<close>, is not needed below.\<close>

subsection \<open>\<open>Number.prototype.toString\<close>\<close>

fun digits_of :: "nat \<Rightarrow> nat \<Rightarrow> string" where
  "digits_of b n =
     (if b < 2 \<or> n < b then [digit_char n]
      else digits_of b (n div b) @ [digit_char (n mod b)])"

declare digits_of.simps [simp del]

text \<open>\<open>num.toString()\<close>: plain decimal digits below \<open>10 ^ 21\<close>, exponent notation from
  there on (\<open>1e+21\<close>); \<open>-0\<close> prints as \<open>0\<close>.\<close>

definition strip_zeros :: "string \<Rightarrow> string" where
  "strip_zeros s = rev (dropWhile (\<lambda>c. c = CHR ''0'') (rev s))"

definition exponent_form :: "string \<Rightarrow> string" where
  "exponent_form ds =
     (let frac = strip_zeros (tl ds)
      in hd ds # (if frac = [] then [] else CHR ''.'' # frac)
         @ ''e+'' @ digits_of 10 (length ds - 1))"

fun toString10 :: "number \<Rightarrow> string" where
  "toString10 NaN = ''NaN''"
| "toString10 (Val v) =
     (let ds = digits_of 10 (nat \<bar>v\<bar>)
      in (if v < 0 then ''-'' else '''') @ (if length ds \<le> 21 then ds else exponent_form ds))"

text \<open>\<open>num.toString(2)\<close> of an integer: the binary digits, with a minus sign when negative.\<close>

fun toString2 :: "number \<Rightarrow> string" where
  "toString2 NaN = ''NaN''"
| "toString2 (Val v) = (if v < 0 then ''-'' else '''') @ digits_of 2 (nat \<bar>v\<bar>)"

section \<open>ipUtils.js\<close>

subsection \<open>\<open>ipToBinary\<close>\<close>

definition ipToBinary :: "string \<Rightarrow> string" where
  "ipToBinary ip =
     join_dot (map (\<lambda>octet. padStart 8 (toString2 (parseInt octet))) (split_dot ip))"

subsection \<open>\<open>normalizeIpAddress\<close>\<close>

definition normalize_octet :: "string \<Rightarrow> string" where
  "normalize_octet octet =
     (let trimmed = trim octet
      in if trimmed = [] then trimmed
         else (case parseInt trimmed of NaN \<Rightarrow> trimmed | Val v \<Rightarrow> toString10 (Val v)))"

definition normalizeIpAddress :: "string \<Rightarrow> string" where
  "normalizeIpAddress ip =
     (if ip = [] then ip
      else let parts = split_dot ip
           in if length parts \<noteq> 4 then ip
              else join_dot (map normalize_octet parts))"

subsection \<open>\<open>validateIpAddress\<close>\<close>

text \<open>The failure objects \<open>{valid: false, error: ...}\<close>, one constructor for each message
  of the source; the octet index is 1-based, as in the message.\<close>

datatype validation_error =
    Required
  | MissingOctets
  | EmptyOctet nat
  | OutOfRange nat
  | NonContiguousMask

fun error_message :: "validation_error \<Rightarrow> string" where
  "error_message Required = ''IP address is required''"
| "error_message MissingOctets = ''IP address must contain exactly 4 octets''"
| "error_message (EmptyOctet i) =
     ''Octet '' @ toString10 (Val (int i)) @ '' cannot be empty''"
| "error_message (OutOfRange i) =
     ''Octet '' @ toString10 (Val (int i)) @ '' must be a number between 0 and 255''"
| "error_message NonContiguousMask =
     ''Invalid subnet mask: must be contiguous 1s followed by 0s''"

text \<open>The loop \<open>for (let i = 0; i < parts.length; i++)\<close>, from index \<open>i\<close> on:
  the first octet that fails decides the error.\<close>

fun check_octets :: "nat \<Rightarrow> string list \<Rightarrow> validation_error option" where
  "check_octets i [] = None"
| "check_octets i (p # ps) =
     (let octet = trim p
      in if octet = [] then Some (EmptyOctet (i + 1))
         else if out_of_range (parseInt octet) then Some (OutOfRange (i + 1))
         else check_octets (i + 1) ps)"

text \<open>\<open>Inr normalizedIp\<close> stands for \<open>{valid: true, normalizedIp}\<close>.\<close>

definition validateIpAddress :: "string \<Rightarrow> validation_error + string" where
  "validateIpAddress ip =
     (if ip = [] then Inl Required
      else let normalizedIp = normalizeIpAddress ip;
               parts = split_dot normalizedIp
           in if length parts \<noteq> 4 then Inl MissingOctets
              else (case check_octets 0 parts of
                      Some e \<Rightarrow> Inl e
                    | None \<Rightarrow> Inr normalizedIp))"

subsection \<open>\<open>validateSubnetMask\<close>\<close>

text \<open>The scan of the binary string; \<open>True\<close> when a 1 is met after a 0 (the early
  \<open>return\<close> of the loop).\<close>

fun one_after_zero :: "bool \<Rightarrow> string \<Rightarrow> bool" where
  "one_after_zero foundZero [] = False"
| "one_after_zero foundZero (c # cs) =
     (if c = CHR ''0'' then one_after_zero True cs
      else if foundZero \<and> c = CHR ''1'' then True
      else one_after_zero foundZero cs)"

definition mask_binary :: "string \<Rightarrow> string" where
  "mask_binary subnetMask =
     concat (map (\<lambda>p. padStart 8 (toString2 p)) (map parseInt (split_dot subnetMask)))"

definition validateSubnetMask :: "string \<Rightarrow> validation_error + unit" where
  "validateSubnetMask subnetMask =
     (case validateIpAddress subnetMask of
        Inl e \<Rightarrow> Inl e
      | Inr _ \<Rightarrow>
          if one_after_zero False (mask_binary subnetMask) then Inl NonContiguousMask
          else Inr ())"

subsection \<open>\<open>ipToInt\<close>, \<open>intToIp\<close>, \<open>isIpInNetwork\<close>\<close>

text \<open>\<open>parts[i]\<close>: past the end of the array it is \<open>undefined\<close>, which the shift reads as 0
  and the addition as \<open>NaN\<close>, as they read \<open>NaN\<close>.\<close>

definition part :: "number list \<Rightarrow> nat \<Rightarrow> number" where
  "part parts i = (if i < length parts then parts ! i else NaN)"

definition ipToInt :: "string \<Rightarrow> number" where
  "ipToInt ip =
     (let parts = map parseInt (split_dot ip)
      in js_add (js_add (js_add (js_shl (part parts 0) 24) (js_shl (part parts 1) 16))
                        (js_shl (part parts 2) 8))
                (part parts 3))"

definition intToIp :: "number \<Rightarrow> string" where
  "intToIp ipInt =
     join_dot (map toString10
       [js_and (js_ushr ipInt 24) (Val 255),
        js_and (js_ushr ipInt 16) (Val 255),
        js_and (js_ushr ipInt 8) (Val 255),
        js_and ipInt (Val 255)])"

definition isIpInNetwork :: "string \<Rightarrow> string \<Rightarrow> string \<Rightarrow> bool" where
  "isIpInNetwork ip networkAddress subnetMask =
     (let ipInt = ipToInt ip;
          networkInt = ipToInt networkAddress;
          maskInt = ipToInt subnetMask
      in js_eq (js_and ipInt maskInt) (js_and networkInt maskInt))"

subsection \<open>\<open>explainNetworkMismatch\<close>\<close>

text \<open>The constants the function computes before it writes the text.\<close>

record mismatch =
  ipNetworkId :: number
  expectedNetworkId :: number
  ipBinary :: string
  networkBinary :: string
  maskBinary :: string
  ipNetworkIdBinary :: string
  expectedNetworkIdBinary :: string
  cidr :: nat
  hostBits :: number
  broadcastInt :: number
  broadcastAddress :: string
  firstHost :: string
  lastHost :: string

definition mismatch_of :: "string \<Rightarrow> string \<Rightarrow> string \<Rightarrow> mismatch" where
  "mismatch_of ip netAddr netMask =
     (let ipInt = ipToInt ip;
          networkInt = ipToInt netAddr;
          maskInt = ipToInt netMask;
          ipNetId = js_and ipInt maskInt;
          expectedNetId = js_and networkInt maskInt;
          maskBin = ipToBinary netMask;
          hostB = js_ushr (js_not maskInt) 0;
          bcastInt = js_or expectedNetId hostB
      in \<lparr> ipNetworkId = ipNetId,
           expectedNetworkId = expectedNetId,
           ipBinary = ipToBinary ip,
           networkBinary = ipToBinary netAddr,
           maskBinary = maskBin,
           ipNetworkIdBinary = ipToBinary (intToIp ipNetId),
           expectedNetworkIdBinary = ipToBinary (intToIp expectedNetId),
           cidr = length (filter (\<lambda>bit. bit = CHR ''1'') maskBin),
           hostBits = hostB,
           broadcastInt = bcastInt,
           broadcastAddress = intToIp bcastInt,
           firstHost = intToIp (js_add expectedNetId (Val 1)),
           lastHost = intToIp (js_sub bcastInt (Val 1)) \<rparr>)"

definition explainNetworkMismatch :: "string \<Rightarrow> string \<Rightarrow> string \<Rightarrow> string" where
  "explainNetworkMismatch ip netAddr netMask =
     (let m = mismatch_of ip netAddr netMask
      in ''Your IP address '' @ ip @ '' does not belong to the network '' @ netAddr @ ''/''
           @ toString10 (Val (int (cidr m))) @ ''.\<newline>\<newline>''
         @ ''Here'' @ [CHR 0x27] @ ''s why:\<newline>\<newline>''
         @ ''1. Network ID Calculation:\<newline>''
         @ ''   Network Address: '' @ netAddr @ '' ('' @ networkBinary m @ '')\<newline>''
         @ ''   Subnet Mask:     '' @ netMask @ '' ('' @ maskBinary m @ '')\<newline>''
         @ ''   Network ID:      '' @ intToIp (expectedNetworkId m)
           @ '' ('' @ expectedNetworkIdBinary m @ '')\<newline>\<newline>''
         @ ''2. Your IP'' @ [CHR 0x27] @ ''s Network ID:\<newline>''
         @ ''   Your IP:         '' @ ip @ '' ('' @ ipBinary m @ '')\<newline>''
         @ ''   Subnet Mask:     '' @ netMask @ '' ('' @ maskBinary m @ '')\<newline>''
         @ ''   Calculated ID:   '' @ intToIp (ipNetworkId m)
           @ '' ('' @ ipNetworkIdBinary m @ '')\<newline>\<newline>''
         @ (if \<not> js_eq (ipNetworkId m) (expectedNetworkId m)
            then ''3. The Problem:\<newline>''
               @ ''   Your IP'' @ [CHR 0x27] @ ''s network ID ('' @ intToIp (ipNetworkId m)
               @ '') does not match the required network ID (''
               @ intToIp (expectedNetworkId m) @ '').\<newline>''
               @ ''   This means your IP is in a different network.\<newline>\<newline>''
            else [])
         @ ''4. Valid IP Range for this Network:\<newline>''
         @ ''   Network Address: '' @ netAddr @ '' (reserved)\<newline>''
         @ ''   First Host:      '' @ firstHost m @ ''\<newline>''
         @ ''   Last Host:       '' @ lastHost m @ ''\<newline>''
         @ ''   Broadcast:       '' @ broadcastAddress m @ '' (reserved)\<newline>\<newline>''
         @ ''   Valid host IPs: '' @ firstHost m @ '' to '' @ lastHost m)"

subsection \<open>The generators\<close>

text \<open>One value of \<open>Math.random()\<close>: a number \<open>r\<close> with \<open>0 \<le> r < 1\<close>.  The product
  \<open>Math.random() * n\<close> is taken exactly; for the integers \<open>n\<close> of this program the
  double the engine computes stays below \<open>n\<close> as the exact product does.\<close>

typedef random = "{r :: real. 0 \<le> r \<and> r < 1}"
  by (rule exI [of _ 0]) simp

text \<open>\<open>Math.floor(Math.random() * n)\<close>\<close>

fun floor_random_times :: "random \<Rightarrow> number \<Rightarrow> number" where
  "floor_random_times r NaN = NaN"
| "floor_random_times r (Val n) = Val \<lfloor>Rep_random r * of_int n\<rfloor>"

definition generateRandomIp :: "random \<Rightarrow> random \<Rightarrow> random \<Rightarrow> random \<Rightarrow> string" where
  "generateRandomIp r0 r1 r2 r3 =
     join_dot (map toString10
       [floor_random_times r0 (Val 256), floor_random_times r1 (Val 256),
        floor_random_times r2 (Val 256), floor_random_times r3 (Val 256)])"

definition commonMasks :: "string list" where
  "commonMasks =
     [''255.255.255.0'', ''255.255.0.0'', ''255.0.0.0'', ''255.255.255.128'',
      ''255.255.255.192'', ''255.255.255.224'', ''255.255.254.0'', ''255.255.252.0'']"

text \<open>\<open>commonMasks[i]\<close>; the index is in range for every value of the random source.\<close>

definition generateRandomSubnetMask :: "random \<Rightarrow> string" where
  "generateRandomSubnetMask r =
     (case floor_random_times r (Val (int (length commonMasks))) of
        Val i \<Rightarrow> commonMasks ! nat i
      | NaN \<Rightarrow> [])"


section \<open>App.svelte\<close>

subsection \<open>The game state\<close>

record response =
  providedIpAddress_decimal :: string
  providedIpAddress_binary :: string
  providedSubnetMask_decimal :: string
  providedSubnetMask_binary :: string
  currentNetworkAddress_decimal :: string
  currentNetworkAddress_binary :: string
  currentSubnetMask_decimal :: string
  currentSubnetMask_binary :: string
  isCorrect :: bool
  currentScore :: nat
  totalQuestionsAttempted :: nat
  message :: string

text \<open>An element of \<open>submissions\<close>: \<open>{...currentResponse, attemptNumber}\<close>.\<close>

record submission =
  response :: response
  attemptNumber :: nat

record state =
  networkAddress :: string
  subnetMask :: string
  userInput :: string
  score :: nat
  correctAnswers :: nat
  totalAttempts :: nat
  gameCompleted :: bool
  submissions :: "submission list"
  currentResponse :: "response option"
  errorMessage :: string
  waitingForContinue :: bool

text \<open>The four values \<open>initGame\<close> takes from \<open>Math.random()\<close>, in the order of the calls:
  one for the mask, three for the octets of the network address.\<close>

type_synonym draws = "random \<times> random \<times> random \<times> random"

definition initial_state :: state where
  "initial_state =
     \<lparr> networkAddress = [], subnetMask = [], userInput = [], score = 0, correctAnswers = 0,
       totalAttempts = 0, gameCompleted = False, submissions = [], currentResponse = None,
       errorMessage = [], waitingForContinue = False \<rparr>"

fun initGame :: "draws \<Rightarrow> state \<Rightarrow> state" where
  "initGame (rm, r0, r1, r2) s =
     (let netMask = generateRandomSubnetMask rm;
          randomIp = join_dot (map toString10
            [floor_random_times r0 (Val 256), floor_random_times r1 (Val 256),
             floor_random_times r2 (Val 256), Val 0])
      in s\<lparr> subnetMask := netMask, networkAddress := randomIp, userInput := [],
            errorMessage := [], currentResponse := None, waitingForContinue := False \<rparr>)"

definition continueToNextQuestion :: "draws \<Rightarrow> state \<Rightarrow> state" where
  "continueToNextQuestion d s = (if correctAnswers s < 5 then initGame d s else s)"

text \<open>The script runs \<open>initGame()\<close> once when the component is mounted.\<close>

definition fresh :: "draws \<Rightarrow> state" where
  "fresh d = initGame d initial_state"

text \<open>\<open>userIp || userInput\<close> and \<open>userSubnet || subnetMask\<close>: \<open>null\<close> and the empty string
  both give the right-hand side.\<close>

definition or_else :: "string option \<Rightarrow> string \<Rightarrow> string" where
  "or_else a b = (case a of None \<Rightarrow> b | Some x \<Rightarrow> if x = [] then b else x)"

definition generateResponse ::
  "bool \<Rightarrow> string \<Rightarrow> string option \<Rightarrow> string option \<Rightarrow> state \<Rightarrow> response" where
  "generateResponse correct msg userIp userSubnet s =
     (let ipToUse = or_else userIp (userInput s)
      in \<lparr> providedIpAddress_decimal = ipToUse,
           providedIpAddress_binary = (if ipToUse = [] then [] else ipToBinary ipToUse),
           providedSubnetMask_decimal = or_else userSubnet (subnetMask s),
           providedSubnetMask_binary = ipToBinary (or_else userSubnet (subnetMask s)),
           currentNetworkAddress_decimal = networkAddress s,
           currentNetworkAddress_binary = ipToBinary (networkAddress s),
           currentSubnetMask_decimal = subnetMask s,
           currentSubnetMask_binary = ipToBinary (subnetMask s),
           isCorrect = correct,
           currentScore = score s,
           totalQuestionsAttempted = totalAttempts s,
           message = msg \<rparr>)"

text \<open>\<open>submissions.push({...currentResponse, attemptNumber: totalAttempts})\<close>\<close>

definition push_submission :: "state \<Rightarrow> state" where
  "push_submission s =
     (case currentResponse s of
        None \<Rightarrow> s
      | Some r \<Rightarrow>
          s\<lparr> submissions := submissions s
                 @ [\<lparr> response = r, attemptNumber = totalAttempts s \<rparr>] \<rparr>)"

definition handleSubmit :: "state \<Rightarrow> state" where
  "handleSubmit s0 =
     (let s = s0\<lparr> errorMessage := [], totalAttempts := totalAttempts s0 + 1 \<rparr>
      in case validateIpAddress (userInput s) of
           Inl e \<Rightarrow>
             (let s1 = s\<lparr> errorMessage := error_message e \<rparr>;
                  s2 = s1\<lparr> currentResponse :=
                         Some (generateResponse False (''Validation error: '' @ error_message e)
                                 None None s1) \<rparr>
              in push_submission s2)
         | Inr normalized \<Rightarrow>
             (let normalizedIp = or_else (Some normalized) (userInput s);
                  correct = isIpInNetwork normalizedIp (networkAddress s) (subnetMask s);
                  s3 =
                    (if correct then
                       (let s1 = s\<lparr> score := score s + 1, correctAnswers := correctAnswers s + 1 \<rparr>;
                            r = generateResponse True
                                  (''Correct! The IP address '' @ normalizedIp
                                   @ '' belongs to the network '' @ networkAddress s1 @ ''/''
                                   @ subnetMask s1)
                                  (Some normalizedIp) None s1
                        in if correctAnswers s1 \<ge> 5
                           then s1\<lparr> gameCompleted := True,
                                    currentResponse :=
                                      Some (r\<lparr> message := message r @ '' Game completed!'' \<rparr>) \<rparr>
                           else s1\<lparr> currentResponse := Some r, waitingForContinue := True \<rparr>)
                     else
                       s\<lparr> currentResponse :=
                            Some (generateResponse False
                                    (explainNetworkMismatch normalizedIp (networkAddress s)
                                       (subnetMask s))
                                    (Some normalizedIp) None s) \<rparr>);
                  s4 = push_submission s3
              in if \<not> correct then s4\<lparr> userInput := [] \<rparr> else s4))"

fun handleReset :: "draws \<Rightarrow> state \<Rightarrow> state" where
  "handleReset d s =
     initGame d
       (s\<lparr> score := 0, correctAnswers := 0, totalAttempts := 0, gameCompleted := False,
           submissions := [], currentResponse := None, errorMessage := [],
           waitingForContinue := False \<rparr>)"

text \<open>\<open>event.key === 'Enter' && !gameCompleted\<close>\<close>

definition handleKeyPress :: "string \<Rightarrow> state \<Rightarrow> state" where
  "handleKeyPress key s =
     (if key = ''Enter'' \<and> \<not> gameCompleted s then handleSubmit s else s)"

subsection \<open>The events of the page\<close>

text \<open>What the markup lets the user do.  The text box (bound to \<open>userInput\<close>, with
  \<open>handleKeyPress\<close> on a key), the Submit button and the Continue button exist only under
  \<open>{#if !gameCompleted}\<close>; the text box is disabled by
  \<open>gameCompleted || waitingForContinue\<close>; Continue is shown under \<open>{#if waitingForContinue}\<close>
  and Submit otherwise, disabled by \<open>gameCompleted || !userInput.trim()\<close>; a Reset button
  is in both branches.\<close>

datatype event =
    TypeInput string
  | KeyPress string
  | ClickSubmit
  | ClickContinue draws
  | ClickReset draws

fun handler :: "event \<Rightarrow> state \<Rightarrow> state" where
  "handler (TypeInput txt) s = s\<lparr> userInput := txt \<rparr>"
| "handler (KeyPress key) s = handleKeyPress key s"
| "handler ClickSubmit s = handleSubmit s"
| "handler (ClickContinue d) s = continueToNextQuestion d s"
| "handler (ClickReset d) s = handleReset d s"

fun enabled :: "event \<Rightarrow> state \<Rightarrow> bool" where
  "enabled (TypeInput txt) s = (\<not> gameCompleted s \<and> \<not> (gameCompleted s \<or> waitingForContinue s))"
| "enabled (KeyPress key) s = (\<not> gameCompleted s \<and> \<not> (gameCompleted s \<or> waitingForContinue s))"
| "enabled ClickSubmit s =
     (\<not> gameCompleted s \<and> \<not> waitingForContinue s
      \<and> \<not> (gameCompleted s \<or> trim (userInput s) = []))"
| "enabled (ClickContinue d) s = (\<not> gameCompleted s \<and> waitingForContinue s)"
| "enabled (ClickReset d) s = True"

definition ui_step :: "event \<Rightarrow> state \<Rightarrow> state" where
  "ui_step e s = (if enabled e s then handler e s else s)"

text \<open>A sequence of handler calls in any order, and a sequence of events of the page.\<close>

fun run_handlers :: "event list \<Rightarrow> state \<Rightarrow> state" where
  "run_handlers [] s = s"
| "run_handlers (e # es) s = run_handlers es (handler e s)"

fun run_ui :: "event list \<Rightarrow> state \<Rightarrow> state" where
  "run_ui [] s = s"
| "run_ui (e # es) s = run_ui es (ui_step e s)"

section \<open>The data model of the specification\<close>

text \<open>An IPv4 address is four octets, octet 0 the most significant.\<close>

datatype address = Address (octet0: "8 word") (octet1: "8 word") (octet2: "8 word") (octet3: "8 word")

text \<open>The canonical text: decimal octets without leading zeros, joined by dots.\<close>

fun canonical :: "address \<Rightarrow> string" where
  "canonical (Address a b c d) = join_dot (map (\<lambda>x. digits_of 10 (unat x)) [a, b, c, d])"

text \<open>A string denotes an address when it has four dot-separated segments that
  \<open>parseInt\<close> reads as the four octets (leading zeros, white space and trailing
  characters are accepted, as \<open>parseInt\<close> accepts them).\<close>

fun parses_as :: "string \<Rightarrow> address \<Rightarrow> bool" where
  "parses_as s (Address a b c d) =
     (map parseInt (split_dot s) = [Val (uint a), Val (uint b), Val (uint c), Val (uint d)])"

text \<open>The unsigned 32-bit integer of an address (big-endian packing) and back.\<close>

fun toInt :: "address \<Rightarrow> 32 word" where
  "toInt (Address a b c d) =
     push_bit 24 (ucast a) OR push_bit 16 (ucast b) OR push_bit 8 (ucast c) OR ucast d"

definition fromInt :: "32 word \<Rightarrow> address" where
  "fromInt w = Address (ucast (drop_bit 24 w)) (ucast (drop_bit 16 w)) (ucast (drop_bit 8 w)) (ucast w)"

text \<open>The canonical binary form: each octet as 8 binary digits, most significant first.\<close>

definition binary8 :: "8 word \<Rightarrow> string" where
  "binary8 x = map (\<lambda>i. if bit x i then CHR ''1'' else CHR ''0'') (rev [0..<8])"

fun toBinary :: "address \<Rightarrow> string" where
  "toBinary (Address a b c d) = join_dot (map binary8 [a, b, c, d])"

text \<open>The number of 1-bits, and the masks that are \<open>k\<close> ones followed by zeros.\<close>

definition popcount :: "32 word \<Rightarrow> nat" where
  "popcount w = length (filter (bit w) [0..<32])"

definition prefix_mask :: "nat \<Rightarrow> 32 word" where
  "prefix_mask k = NOT (mask (32 - k))"

definition mask_pattern :: "32 word \<Rightarrow> bool" where
  "mask_pattern w = (\<exists>k\<le>32. w = prefix_mask k)"

text \<open>The two ranges a 32-bit integer is read in.\<close>

definition is_uint32 :: "number \<Rightarrow> bool" where
  "is_uint32 x = (case x of NaN \<Rightarrow> False | Val v \<Rightarrow> 0 \<le> v \<and> v < 2 ^ 32)"

definition is_int32 :: "number \<Rightarrow> bool" where
  "is_int32 x = (case x of NaN \<Rightarrow> False | Val v \<Rightarrow> - (2 ^ 31) \<le> v \<and> v < 2 ^ 31)"

subsection \<open>Validation as the specification words it\<close>

text \<open>A segment is read after trimming, by \<open>parseInt\<close>; it is an octet when the number
  read lies in [0, 255].\<close>

definition octet_of :: "string \<Rightarrow> nat option" where
  "octet_of seg =
     (case parseInt (trim seg) of
        NaN \<Rightarrow> None
      | Val v \<Rightarrow> if 0 \<le> v \<and> v \<le> 255 then Some (nat v) else None)"

text \<open>The first failing segment, counted from \<open>i\<close>: blank, or not an octet.\<close>

fun first_failure :: "nat \<Rightarrow> string list \<Rightarrow> validation_error option" where
  "first_failure i [] = None"
| "first_failure i (seg # segs) =
     (if trim seg = [] then Some (EmptyOctet i)
      else if octet_of seg = None then Some (OutOfRange i)
      else first_failure (i + 1) segs)"

definition parseAndValidate :: "string \<Rightarrow> validation_error + string" where
  "parseAndValidate raw =
     (let segs = split_dot raw
      in if length segs \<noteq> 4 then Inl MissingOctets
         else (case first_failure 1 segs of
                 Some e \<Rightarrow> Inl e
               | None \<Rightarrow>
                   Inr (join_dot (map (\<lambda>seg. case octet_of seg of
                                                Some n \<Rightarrow> digits_of 10 n
                                              | None \<Rightarrow> []) segs))))"

text \<open>Inputs whose segments are read as integers that a double holds exactly.\<close>

fun safe_number :: "number \<Rightarrow> bool" where
  "safe_number NaN = True"
| "safe_number (Val v) = (\<bar>v\<bar> \<le> 2 ^ 53)"

definition safe_input :: "string \<Rightarrow> bool" where
  "safe_input raw = list_all (\<lambda>seg. safe_number (parseInt (trim seg))) (split_dot raw)"

subsection \<open>The operations of the session\<close>

text \<open>\<open>submit(raw)\<close>: \<open>handleSubmit\<close> runs with \<open>raw\<close> in the text box.\<close>

definition submit :: "string \<Rightarrow> state \<Rightarrow> state" where
  "submit raw s = handleSubmit (s\<lparr> userInput := raw \<rparr>)"

text \<open>The verdict on \<open>raw\<close> for the question of state \<open>s\<close>: it validates, and the
  normalized address is in the network.\<close>

definition judged_correct :: "string \<Rightarrow> state \<Rightarrow> bool" where
  "judged_correct raw s =
     (case validateIpAddress raw of
        Inl e \<Rightarrow> False
      | Inr n \<Rightarrow> isIpInNetwork n (networkAddress s) (subnetMask s))"

text \<open>On the page: the user types \<open>raw\<close> and presses Enter.\<close>

definition enter :: "string \<Rightarrow> state \<Rightarrow> state" where
  "enter raw s = ui_step (KeyPress ''Enter'') (ui_step (TypeInput raw) s)"

text \<open>Further rounds: Continue, then an answer; and the condition that each answer of
  such a play is judged correct for the question it meets.\<close>

fun play :: "(draws \<times> string) list \<Rightarrow> state \<Rightarrow> state" where
  "play [] s = s"
| "play ((d, raw) # rest) s = play rest (enter raw (ui_step (ClickContinue d) s))"

fun all_correct :: "(draws \<times> string) list \<Rightarrow> state \<Rightarrow> bool" where
  "all_correct [] s = True"
| "all_correct ((d, raw) # rest) s =
     (judged_correct raw (ui_step (ClickContinue d) s)
      \<and> all_correct rest (enter raw (ui_step (ClickContinue d) s)))"

text \<open>The same rounds as calls of the functions, without the page: \<open>continueToNextQuestion\<close>,
  then \<open>submit\<close>.\<close>

fun rounds :: "(draws \<times> string) list \<Rightarrow> state \<Rightarrow> state" where
  "rounds [] s = s"
| "rounds ((d, raw) # rest) s = rounds rest (submit raw (continueToNextQuestion d s))"

fun rounds_correct :: "(draws \<times> string) list \<Rightarrow> state \<Rightarrow> bool" where
  "rounds_correct [] s = True"
| "rounds_correct ((d, raw) # rest) s =
     (judged_correct raw (continueToNextQuestion d s)
      \<and> rounds_correct rest (submit raw (continueToNextQuestion d s)))"

fun is_reset :: "event \<Rightarrow> bool" where
  "is_reset (ClickReset d) = True"
| "is_reset _ = False"

subsection \<open>The explanation of a mismatch as the specification words it\<close>

text \<open>
  The fields the specification gives to \<open>explainMismatch\<close>, over addresses and 32-bit words,
  and the text of \<open>explainNetworkMismatch\<close> written over these fields.
\<close>

record explanation =
  networkID :: address
  addressNetworkID :: address
  prefixLength :: nat
  broadcast :: address
  firstHostAddress :: address
  lastHostAddress :: address

definition explainMismatch :: "address \<Rightarrow> address \<Rightarrow> address \<Rightarrow> explanation" where
  "explainMismatch A N M =
     \<lparr> networkID = fromInt (toInt N AND toInt M),
       addressNetworkID = fromInt (toInt A AND toInt M),
       prefixLength = popcount (toInt M),
       broadcast = fromInt ((toInt N AND toInt M) OR NOT (toInt M)),
       firstHostAddress = fromInt ((toInt N AND toInt M) + 1),
       lastHostAddress = fromInt (((toInt N AND toInt M) OR NOT (toInt M)) - 1) \<rparr>"

definition narrative ::
  "string \<Rightarrow> string \<Rightarrow> string \<Rightarrow> address \<Rightarrow> address \<Rightarrow> address \<Rightarrow> explanation \<Rightarrow> string" where
  "narrative ip netAddr netMask A N M e =
     ''Your IP address '' @ ip @ '' does not belong to the network '' @ netAddr @ ''/''
       @ digits_of 10 (prefixLength e) @ ''.\<newline>\<newline>''
     @ ''Here'' @ [CHR 0x27] @ ''s why:\<newline>\<newline>''
     @ ''1. Network ID Calculation:\<newline>''
     @ ''   Network Address: '' @ netAddr @ '' ('' @ toBinary N @ '')\<newline>''
     @ ''   Subnet Mask:     '' @ netMask @ '' ('' @ toBinary M @ '')\<newline>''
     @ ''   Network ID:      '' @ canonical (networkID e)
       @ '' ('' @ toBinary (networkID e) @ '')\<newline>\<newline>''
     @ ''2. Your IP'' @ [CHR 0x27] @ ''s Network ID:\<newline>''
     @ ''   Your IP:         '' @ ip @ '' ('' @ toBinary A @ '')\<newline>''
     @ ''   Subnet Mask:     '' @ netMask @ '' ('' @ toBinary M @ '')\<newline>''
     @ ''   Calculated ID:   '' @ canonical (addressNetworkID e)
       @ '' ('' @ toBinary (addressNetworkID e) @ '')\<newline>\<newline>''
     @ (if addressNetworkID e \<noteq> networkID e
        then ''3. The Problem:\<newline>''
           @ ''   Your IP'' @ [CHR 0x27] @ ''s network ID ('' @ canonical (addressNetworkID e)
           @ '') does not match the required network ID (''
           @ canonical (networkID e) @ '').\<newline>''
           @ ''   This means your IP is in a different network.\<newline>\<newline>''
        else [])
     @ ''4. Valid IP Range for this Network:\<newline>''
     @ ''   Network Address: '' @ netAddr @ '' (reserved)\<newline>''
     @ ''   First Host:      '' @ canonical (firstHostAddress e) @ ''\<newline>''
     @ ''   Last Host:       '' @ canonical (lastHostAddress e) @ ''\<newline>''
     @ ''   Broadcast:       '' @ canonical (broadcast e) @ '' (reserved)\<newline>\<newline>''
     @ ''   Valid host IPs: '' @ canonical (firstHostAddress e) @ '' to ''
       @ canonical (lastHostAddress e)"

section \<open>Properties of the primitives\<close>

subsection \<open>Decimal digits and \<open>parseInt\<close>\<close>

lemma of_char_digit_char: "d < 10 \<Longrightarrow> (of_char (digit_char d) :: nat) = 48 + d"
  by (simp add: digit_char_def)

lemma isDigit_digit_char: "d < 10 \<Longrightarrow> isDigit (digit_char d)"
  by (simp add: isDigit_def of_char_digit_char)

lemma digit_val_digit_char: "d < 10 \<Longrightarrow> digit_val (digit_char d) = int d"
  by (simp add: digit_val_def of_char_digit_char)

lemma isDigit_not_special:
  assumes "isDigit c"
  shows "\<not> isWhiteSpace c" "c \<noteq> CHR ''.''" "c \<noteq> CHR ''-''" "c \<noteq> CHR ''+''"
  using assms by (auto simp: isDigit_def isWhiteSpace_def)

lemma digits_of_nonempty: "digits_of b n \<noteq> []"
  by (subst digits_of.simps) simp

lemma digits_of_10_digits: "c \<in> set (digits_of 10 n) \<Longrightarrow> isDigit c"
proof (induction "10::nat" n rule: digits_of.induct)
  case (1 n)
  show ?case
  proof (cases "n < 10")
    case True
    with "1.prems" show ?thesis
      by (subst (asm) digits_of.simps) (simp add: isDigit_digit_char)
  next
    case False
    with "1.prems" have "c \<in> set (digits_of 10 (n div 10)) \<or> c = digit_char (n mod 10)"
      by (subst (asm) digits_of.simps) auto
    with False "1.hyps" show ?thesis
      by (auto simp: isDigit_digit_char)
  qed
qed

lemma digits_value_snoc: "digits_value (z @ [c]) = 10 * digits_value z + digit_val c"
  by (simp add: digits_value_def)

lemma digits_value_digits_of: "digits_value (digits_of 10 n) = int n"
proof (induction "10::nat" n rule: digits_of.induct)
  case (1 n)
  show ?case
  proof (cases "n < 10")
    case True
    then show ?thesis
      by (subst digits_of.simps) (simp add: digits_value_def digit_val_digit_char)
  next
    case False
    with "1.hyps" have "digits_value (digits_of 10 (n div 10)) = int (n div 10)" by simp
    with False show ?thesis
      by (subst digits_of.simps) (simp add: digits_value_snoc digit_val_digit_char zdiv_int zmod_int)
  qed
qed

lemma parseInt_digits:
  assumes "z \<noteq> []" "\<forall>c\<in>set z. isDigit c"
  shows "parseInt z = Val (digits_value z)"
proof -
  from assms obtain c r where z: "z = c # r" by (cases z) auto
  with assms have c: "isDigit c" by simp
  have dw: "dropWhile isWhiteSpace z = z"
    using c z isDigit_not_special(1) by simp
  have tw: "takeWhile isDigit z = z"
    using assms(2) by (simp add: takeWhile_eq_all_conv)
  show ?thesis
    unfolding parseInt_def dw
    using isDigit_not_special(3,4)[OF c] tw assms(1) by (simp add: z)
qed

lemma parseInt_minus_digits:
  assumes "z \<noteq> []" "\<forall>c\<in>set z. isDigit c"
  shows "parseInt (CHR ''-'' # z) = Val (- digits_value z)"
proof -
  have ws: "\<not> isWhiteSpace CHR ''-''" by (simp add: isWhiteSpace_def)
  have tw: "takeWhile isDigit z = z"
    using assms(2) by (simp add: takeWhile_eq_all_conv)
  show ?thesis
    unfolding parseInt_def using ws assms(1) by (simp add: Let_def tw)
qed

lemma parseInt_digits_of: "parseInt (digits_of 10 n) = Val (int n)"
  using parseInt_digits [of "digits_of 10 n"]
  by (simp add: digits_of_nonempty digits_of_10_digits digits_value_digits_of)

lemma length_digits_of_10: "n < 10 ^ k \<Longrightarrow> 0 < k \<Longrightarrow> length (digits_of 10 n) \<le> k"
proof (induction k arbitrary: n)
  case 0
  then show ?case by simp
next
  case (Suc k)
  show ?case
  proof (cases "n < 10")
    case True
    then show ?thesis by (subst digits_of.simps) simp
  next
    case False
    with Suc.prems have k: "0 < k" by (cases k) auto
    from Suc.prems have "n div 10 < 10 ^ k" by (simp add: less_mult_imp_div_less mult.commute)
    with Suc.IH k have "length (digits_of 10 (n div 10)) \<le> k" by simp
    with False show ?thesis by (subst digits_of.simps) simp
  qed
qed

subsection \<open>\<open>split\<close> and \<open>join\<close>\<close>

lemma split_dot_nonempty: "split_dot s \<noteq> []"
  by (induction s) (auto split: list.splits)

lemma split_dot_no_dot: "p \<in> set (split_dot s) \<Longrightarrow> CHR ''.'' \<notin> set p"
  by (induction s arbitrary: p) (auto split: list.splits if_splits)

lemma split_dot_segment: "CHR ''.'' \<notin> set p \<Longrightarrow> split_dot (p @ CHR ''.'' # s) = p # split_dot s"
  by (induction p) (auto split: list.splits)

lemma split_dot_single: "CHR ''.'' \<notin> set p \<Longrightarrow> split_dot p = [p]"
  by (induction p) (auto split: list.splits)

lemma split_dot_join_dot:
  "ps \<noteq> [] \<Longrightarrow> \<forall>p\<in>set ps. CHR ''.'' \<notin> set p \<Longrightarrow> split_dot (join_dot ps) = ps"
  by (induction ps rule: join_dot.induct) (simp_all add: split_dot_single split_dot_segment)

subsection \<open>32-bit operations\<close>

lemma to_word_js [simp]:
  "to_word (js_and x y) = to_word x AND to_word y"
  "to_word (js_or x y) = to_word x OR to_word y"
  "to_word (js_not x) = NOT (to_word x)"
  "to_word (js_shl x n) = push_bit (n mod 32) (to_word x)"
  "to_word (js_ushr x n) = drop_bit (n mod 32) (to_word x)"
  by (simp_all add: js_and_def js_or_def js_not_def js_shl_def js_ushr_def)

lemma to_word_add [simp]:
  "to_word (js_add (Val x) (Val y)) = to_word (Val x) + to_word (Val y)"
  "to_word (js_sub (Val x) (Val y)) = to_word (Val x) - to_word (Val y)"
  by simp_all

lemma js_eq_and: "js_eq (js_and x y) (js_and u v) = (to_word x AND to_word y = to_word u AND to_word v)"
  by (auto simp add: js_and_def intro: signed_word_eqI)

lemma canonical_parses: "parses_as (canonical A) A"
proof (cases A)
  case (Address a b c d)
  have "split_dot (join_dot (map (\<lambda>x. digits_of 10 (unat x)) [a, b, c, d]))
      = map (\<lambda>x. digits_of 10 (unat x)) [a, b, c, d]"
    by (rule split_dot_join_dot) (auto dest: digits_of_10_digits isDigit_not_special(2))
  then show ?thesis
    by (simp add: Address parseInt_digits_of)
qed

lemma fromInt_toInt: "fromInt (toInt A) = A"
proof (cases A)
  case (Address a b c d)
  show ?thesis
    unfolding Address fromInt_def toInt.simps address.inject
    by (intro conjI bit_word_eqI) (auto simp add: bit_simps dest: bit_imp_le_length)
qed

lemma toInt_fromInt: "toInt (fromInt w) = w"
  unfolding fromInt_def toInt.simps
proof (rule bit_word_eqI)
  fix n assume "n < LENGTH(32)"
  then have "n < 8 \<or> (8 \<le> n \<and> n < 16) \<or> (16 \<le> n \<and> n < 24) \<or> (24 \<le> n \<and> n < 32)"
    by auto
  then show "bit (push_bit 24 (ucast (ucast (drop_bit 24 w) :: 8 word)) OR
                  push_bit 16 (ucast (ucast (drop_bit 16 w) :: 8 word)) OR
                  push_bit 8 (ucast (ucast (drop_bit 8 w) :: 8 word)) OR
                  (ucast (ucast w :: 8 word) :: 32 word)) n = bit w n"
    by (auto simp add: bit_simps)
qed

lemma pack_sum:
  fixes a b c d :: "8 word"
  shows "(push_bit 24 (ucast a) + push_bit 16 (ucast b) + push_bit 8 (ucast c) + ucast d :: 32 word)
       = push_bit 24 (ucast a) OR push_bit 16 (ucast b) OR push_bit 8 (ucast c) OR ucast d"
proof -
  have 1: "(push_bit 24 (ucast a) + push_bit 16 (ucast b) :: 32 word)
         = push_bit 24 (ucast a) OR push_bit 16 (ucast b)"
    by (rule disjunctive_add) (auto simp add: bit_simps dest: bit_imp_le_length)
  have 2: "((push_bit 24 (ucast a) OR push_bit 16 (ucast b)) + push_bit 8 (ucast c) :: 32 word)
         = (push_bit 24 (ucast a) OR push_bit 16 (ucast b)) OR push_bit 8 (ucast c)"
    by (rule disjunctive_add) (auto simp add: bit_simps dest: bit_imp_le_length)
  have 3: "((push_bit 24 (ucast a) OR push_bit 16 (ucast b) OR push_bit 8 (ucast c)) + ucast d :: 32 word)
         = (push_bit 24 (ucast a) OR push_bit 16 (ucast b) OR push_bit 8 (ucast c)) OR ucast d"
    by (rule disjunctive_add) (auto simp add: bit_simps dest: bit_imp_le_length)
  show ?thesis
    by (simp add: 1 2 3 or.assoc)
qed

lemma ipToInt_parts:
  assumes "map parseInt (split_dot s) = [Val x0, Val x1, Val x2, Val x3]"
  shows "ipToInt s = Val (sint (push_bit 24 (word_of_int x0 :: 32 word))
                        + sint (push_bit 16 (word_of_int x1 :: 32 word))
                        + sint (push_bit 8 (word_of_int x2 :: 32 word)) + x3)"
  using assms by (simp add: ipToInt_def part_def js_shl_def)

lemma to_word_ipToInt:
  assumes "parses_as s A"
  shows "to_word (ipToInt s) = toInt A"
proof (cases A)
  case (Address a b c d)
  with assms have "map parseInt (split_dot s) = [Val (uint a), Val (uint b), Val (uint c), Val (uint d)]"
    by simp
  from ipToInt_parts [OF this] show ?thesis
    by (simp add: Address pack_sum [symmetric])
qed

lemma sint_small: "uint (w :: 32 word) < 2 ^ 31 \<Longrightarrow> sint w = uint w"
proof -
  assume "uint w < 2 ^ 31"
  moreover have "- (2 ^ 31) \<le> uint w"
  proof -
    have "- (2 ^ 31) \<le> (0 :: int)" by simp
    also have "0 \<le> uint w" by simp
    finally show ?thesis .
  qed
  ultimately have "signed_take_bit 31 (uint w) = uint w"
    by (rule signed_take_bit_int_eq_self [rotated])
  then show ?thesis
    by (simp add: sint_uint)
qed

lemma and_255_ucast: "(y AND 255 :: 32 word) = ucast (ucast y :: 8 word)"
proof -
  have eq: "(255 :: 32 word) = mask 8"
    by (simp add: mask_eq_exp_minus_1)
  show ?thesis
    unfolding eq by (rule bit_word_eqI) (auto simp add: bit_simps)
qed

lemma uint_ucast_8_32: "uint (ucast (z :: 8 word) :: 32 word) = uint z"
  using take_bit_int_eq_self [of "uint z" 32] uint_lt2p [of z] by (simp add: unsigned_ucast_eq)

lemma uint8_less: "uint (z :: 8 word) < 256"
  using uint_lt2p [of z] by simp

lemma sint_and_255: "sint (y AND 255 :: 32 word) = uint (ucast y :: 8 word)"
proof -
  have "uint (ucast (ucast y :: 8 word) :: 32 word) = uint (ucast y :: 8 word)"
    by (rule uint_ucast_8_32)
  moreover have "uint (ucast y :: 8 word) < 2 ^ 31"
    using uint8_less [of "ucast y"] by simp
  ultimately show ?thesis
    by (simp add: and_255_ucast sint_small)
qed

lemma toString10_small: "n < 10 ^ 21 \<Longrightarrow> toString10 (Val (int n)) = digits_of 10 n"
  using length_digits_of_10 [of n 21] by simp

lemma octet_string: "js_and x (Val 255) = Val (int (unat (ucast (to_word x) :: 8 word)))"
  by (simp add: js_and_def sint_and_255)

lemma toString10_octet:
  "toString10 (js_and x (Val 255)) = digits_of 10 (unat (ucast (to_word x) :: 8 word))"
proof -
  have "unat (ucast (to_word x) :: 8 word) < 10 ^ 21"
    using unsigned_less [of "ucast (to_word x) :: 8 word", where 'a = nat] by simp
  then show ?thesis
    unfolding octet_string by (rule toString10_small)
qed

lemma intToIp_canonical: "intToIp x = canonical (fromInt (to_word x))"
  by (simp add: intToIp_def fromInt_def toString10_octet)

lemma sint_32: "sint (w :: 32 word) = uint w - 2 ^ 32 * of_bool (bit w 31)"
proof -
  have "take_bit 32 (uint w) = uint w"
    using take_bit_int_eq_self [of "uint w" 32] uint_lt2p [of w] by simp
  then show ?thesis
    by (simp add: sint_uint signed_take_bit_eq_take_bit_minus bit_uint_iff)
qed

lemma uint_word_of_int_32: "0 \<le> k \<Longrightarrow> k < 2 ^ 32 \<Longrightarrow> uint (word_of_int k :: 32 word) = k"
  by (simp add: uint_word_of_int)

lemma word_of_int_uint8: "(word_of_int (uint (a :: 8 word)) :: 32 word) = ucast a"
  by simp

lemma sint_pack:
  fixes a b c d :: "8 word"
  shows "sint (push_bit 24 (ucast a) :: 32 word) + sint (push_bit 16 (ucast b) :: 32 word)
           + sint (push_bit 8 (ucast c) :: 32 word) + uint d
       = sint (toInt (Address a b c d))"
proof -
  let ?X = "push_bit 24 (ucast a) :: 32 word"
  let ?P = "toInt (Address a b c d)"
  note bounds = uint8_less [of a] uint8_less [of b] uint8_less [of c] uint8_less [of d]
  have X: "?X = word_of_int (uint a * 2 ^ 24)"
    by (simp add: push_bit_eq_mult)
  have B: "(push_bit 16 (ucast b) :: 32 word) = word_of_int (uint b * 2 ^ 16)"
    by (simp add: push_bit_eq_mult)
  have C: "(push_bit 8 (ucast c) :: 32 word) = word_of_int (uint c * 2 ^ 8)"
    by (simp add: push_bit_eq_mult)
  have "?P = push_bit 24 (ucast a) + push_bit 16 (ucast b) + push_bit 8 (ucast c) + ucast d"
    by (simp add: pack_sum)
  also have "\<dots> = word_of_int (uint a * 2 ^ 24 + uint b * 2 ^ 16 + uint c * 2 ^ 8 + uint d)"
    by (simp add: push_bit_eq_mult)
  finally have P: "?P = word_of_int (uint a * 2 ^ 24 + uint b * 2 ^ 16 + uint c * 2 ^ 8 + uint d)" .
  have uX: "uint ?X = uint a * 2 ^ 24"
    unfolding X using bounds by (intro uint_word_of_int_32) simp_all
  have uB: "uint (push_bit 16 (ucast b) :: 32 word) = uint b * 2 ^ 16"
    unfolding B using bounds by (intro uint_word_of_int_32) simp_all
  have uC: "uint (push_bit 8 (ucast c) :: 32 word) = uint c * 2 ^ 8"
    unfolding C using bounds by (intro uint_word_of_int_32) simp_all
  have uP: "uint ?P = uint a * 2 ^ 24 + uint b * 2 ^ 16 + uint c * 2 ^ 8 + uint d"
    unfolding P using bounds by (intro uint_word_of_int_32) simp_all
  have sB: "sint (push_bit 16 (ucast b) :: 32 word) = uint b * 2 ^ 16"
    using bounds by (subst sint_small) (simp_all add: uB)
  have sC: "sint (push_bit 8 (ucast c) :: 32 word) = uint c * 2 ^ 8"
    using bounds by (subst sint_small) (simp_all add: uC)
  have msb: "bit ?P 31 = bit ?X 31"
    by (auto simp add: bit_simps dest: bit_imp_le_length)
  show ?thesis
    unfolding sB sC sint_32 [of ?X] sint_32 [of ?P] msb uX uP by simp
qed

lemma ipToInt_sint:
  assumes "parses_as s A"
  shows "ipToInt s = Val (sint (toInt A))"
proof (cases A)
  case (Address a b c d)
  with assms have "map parseInt (split_dot s) = [Val (uint a), Val (uint b), Val (uint c), Val (uint d)]"
    by simp
  from ipToInt_parts [OF this] show ?thesis
    unfolding Address by (simp only: sint_pack word_of_int_uint8)
qed

subsection \<open>Binary digits\<close>

lemma digit_char_0: "digit_char 0 = CHR ''0''"
  by code_simp

lemma digit_char_1: "digit_char (Suc 0) = CHR ''1''"
  by code_simp

lemma digit_char_01: "digit_char (n mod 2) = (if odd n then CHR ''1'' else CHR ''0'')"
  by (cases "even n") (simp_all add: digit_char_0 digit_char_1 odd_iff_mod_2_eq_one)

lemma digits_of_2_step: "digits_of 2 n = (if n < 2 then [] else digits_of 2 (n div 2)) @ [digit_char (n mod 2)]"
  by (subst digits_of.simps) simp

lemma length_digits_of_2: "n < 2 ^ k \<Longrightarrow> 0 < k \<Longrightarrow> length (digits_of 2 n) \<le> k"
proof (induction k arbitrary: n)
  case 0
  then show ?case by simp
next
  case (Suc k)
  show ?case
  proof (cases "n < 2")
    case True
    then show ?thesis by (subst digits_of.simps) simp
  next
    case False
    with Suc.prems have k: "0 < k" by (cases k) auto
    from Suc.prems have "n div 2 < 2 ^ k" by (simp add: less_mult_imp_div_less mult.commute)
    with Suc.IH k have "length (digits_of 2 (n div 2)) \<le> k" by simp
    with False show ?thesis by (subst digits_of.simps) simp
  qed
qed

lemma padStart_digits_of_2:
  assumes "0 < k"
  shows "padStart (Suc k) (digits_of 2 n)
       = padStart k (digits_of 2 (n div 2)) @ [digit_char (n mod 2)]"
proof (cases "n < 2")
  case True
  then have "n div 2 = 0" by simp
  moreover have "digits_of 2 0 = ''0''"
    by (subst digits_of.simps) (simp add: digit_char_0)
  moreover have "digits_of 2 n = [digit_char (n mod 2)]"
    using True by (subst digits_of.simps) simp
  moreover have "replicate k CHR ''0'' = replicate (k - 1) CHR ''0'' @ ''0''"
    using assms by (cases k) (simp_all add: replicate_append_same)
  ultimately show ?thesis
    by (simp add: padStart_def)
next
  case False
  then show ?thesis
    by (subst digits_of.simps) (simp add: padStart_def Suc_diff_le)
qed

lemma bits_msb_Suc:
  "map (\<lambda>i. if bit (n :: nat) i then CHR ''1'' else CHR ''0'') (rev [0..<Suc k])
   = map (\<lambda>i. if bit (n div 2) i then CHR ''1'' else CHR ''0'') (rev [0..<k])
     @ [if odd n then CHR ''1'' else CHR ''0'']"
proof -
  have "[0..<Suc k] = 0 # map Suc [0..<k]"
    by (simp add: upt_conv_Cons map_Suc_upt del: upt_Suc)
  then show ?thesis
    by (simp add: rev_map bit_Suc bit_0 o_def del: upt_Suc)
qed

lemma padStart_bits:
  "0 < k \<Longrightarrow> n < 2 ^ k \<Longrightarrow>
   padStart k (digits_of 2 n) = map (\<lambda>i. if bit n i then CHR ''1'' else CHR ''0'') (rev [0..<k])"
proof (induction k arbitrary: n)
  case 0
  then show ?case by simp
next
  case (Suc k)
  show ?case
  proof (cases "k = 0")
    case True
    with Suc.prems have "n < 2" by simp
    then have "digits_of 2 n = [digit_char (n mod 2)]"
      by (subst digits_of.simps) simp
    with True show ?thesis
      by (simp add: padStart_def digit_char_01 bit_0)
  next
    case False
    then have k: "0 < k" by simp
    from Suc.prems have "n div 2 < 2 ^ k" by (simp add: less_mult_imp_div_less mult.commute)
    with Suc.IH k have "padStart k (digits_of 2 (n div 2))
        = map (\<lambda>i. if bit (n div 2) i then CHR ''1'' else CHR ''0'') (rev [0..<k])" by simp
    then show ?thesis
      unfolding padStart_digits_of_2 [OF k] bits_msb_Suc by (simp add: digit_char_01)
  qed
qed

lemma binary8_octet: "padStart 8 (digits_of 2 (unat (x :: 8 word))) = binary8 x"
proof -
  have "unat x < 2 ^ 8"
    using unsigned_less [of x, where 'a = nat] by simp
  then have "padStart 8 (digits_of 2 (unat x))
      = map (\<lambda>i. if bit (unat x) i then CHR ''1'' else CHR ''0'') (rev [0..<8])"
    by (intro padStart_bits) simp_all
  then show ?thesis
    by (simp add: binary8_def bit_unsigned_iff)
qed

lemma length_binary8 [simp]: "length (binary8 x) = 8"
  by (simp add: binary8_def)

lemma ipToBinary_parses: "parses_as s A \<Longrightarrow> ipToBinary s = toBinary A"
proof (cases A)
  case (Address a b c d)
  assume "parses_as s A"
  then have "map parseInt (split_dot s) = [Val (uint a), Val (uint b), Val (uint c), Val (uint d)]"
    by (simp add: Address)
  then have "map (\<lambda>p. padStart 8 (toString2 p)) (map parseInt (split_dot s))
      = map (\<lambda>p. padStart 8 (toString2 p)) [Val (uint a), Val (uint b), Val (uint c), Val (uint d)]"
    by (rule arg_cong)
  then show ?thesis
    by (simp add: ipToBinary_def Address binary8_octet o_def)
qed

lemma mask_binary_parses:
  "parses_as s (Address a b c d) \<Longrightarrow> mask_binary s = binary8 a @ binary8 b @ binary8 c @ binary8 d"
  by (simp add: mask_binary_def binary8_octet)

section \<open>Subnet evaluator\<close>

text \<open>
  C1.  For strings that denote addresses, \<open>isIpInNetwork\<close> is true exactly when the
  address and the network address, as given, agree under the mask:
  \<open>toInt(address) & toInt(mask) = toInt(networkAddress) & toInt(mask)\<close> on the unsigned
  32-bit values.  192.168.1.10 is in 192.168.1.0 / 255.255.255.0 and 192.168.2.10 is not.
\<close>

theorem isIpInNetwork_masks_both:
  "(parses_as ip A \<and> parses_as net N \<and> parses_as msk M \<longrightarrow>
      isIpInNetwork ip net msk = (toInt A AND toInt M = toInt N AND toInt M))
   \<and> isIpInNetwork ''192.168.1.10'' ''192.168.1.0'' ''255.255.255.0''
   \<and> \<not> isIpInNetwork ''192.168.2.10'' ''192.168.1.0'' ''255.255.255.0''"
proof (intro conjI impI)
  assume "parses_as ip A \<and> parses_as net N \<and> parses_as msk M"
  then have "to_word (ipToInt ip) = toInt A" "to_word (ipToInt net) = toInt N"
    "to_word (ipToInt msk) = toInt M"
    by (simp_all add: to_word_ipToInt)
  then show "isIpInNetwork ip net msk = (toInt A AND toInt M = toInt N AND toInt M)"
    by (simp add: isIpInNetwork_def Let_def js_eq_and)
next
  show "isIpInNetwork ''192.168.1.10'' ''192.168.1.0'' ''255.255.255.0''"
    by code_simp
next
  show "\<not> isIpInNetwork ''192.168.2.10'' ''192.168.1.0'' ''255.255.255.0''"
    by code_simp
qed

text \<open>The network address 10.0.1.77 is not aligned to the mask, and is written with a
  leading zero and a trailing blank; 10.0.1.5 is in its network.\<close>

theorem isIpInNetwork_masks_both_witness:
  "parses_as ''10.0.1.5'' (Address 10 0 1 5) \<and> parses_as ''010.0.1.77 '' (Address 10 0 1 77)
   \<and> parses_as ''255.255.255.0'' (Address 255 255 255 0)
   \<and> isIpInNetwork ''10.0.1.5'' ''010.0.1.77 '' ''255.255.255.0''"
proof -
  have 1: "parses_as ''10.0.1.5'' (Address 10 0 1 5)" by code_simp
  have 2: "parses_as ''010.0.1.77 '' (Address 10 0 1 77)" by code_simp
  have 3: "parses_as ''255.255.255.0'' (Address 255 255 255 0)" by code_simp
  have 4: "toInt (Address 10 0 1 5) AND toInt (Address 255 255 255 0)
         = toInt (Address 10 0 1 77) AND toInt (Address 255 255 255 0)" by simp
  from isIpInNetwork_masks_both [of "''10.0.1.5''" "Address 10 0 1 5" "''010.0.1.77 ''" "Address 10 0 1 77"
      "''255.255.255.0''" "Address 255 255 255 0"] 1 2 3 4
  show ?thesis by blast
qed

section \<open>Address codec: integers and binary text\<close>

lemma length_toBinary: "length (toBinary A) = 35"
  by (cases A) simp

lemma ipToInt_intToIp: "ipToInt (intToIp x) = Val (sint (to_word x))"
  using ipToInt_sint [OF canonical_parses, of "fromInt (to_word x)"]
  by (simp add: intToIp_canonical toInt_fromInt)

lemma is_int32_sint: "is_int32 (Val (sint (w :: 32 word)))"
  using sint_ge [of w] sint_lt [of w] by (simp add: is_int32_def)

text \<open>
  C4 (as amended).  \<open>ipToInt\<close> returns the signed 32-bit reading of the big-endian
  packing (negative from 128.0.0.0 on), not an unsigned one.  With that reading the
  mapping is lossless in both directions: \<open>intToIp (ipToInt s)\<close> is the canonical text
  of the address \<open>s\<close> denotes, \<open>ipToInt (intToIp n) = n\<close> for every \<open>n\<close> in the signed
  32-bit range, and for an unsigned \<open>n\<close> it is the signed number with the same 32 bits.
  \<open>ipToBinary\<close> gives the canonical binary form, 35 characters long.
\<close>

theorem ipToInt_intToIp_round_trip:
  "(parses_as s A \<longrightarrow>
      ipToInt s = Val (sint (toInt A)) \<and> is_int32 (ipToInt s)
      \<and> intToIp (ipToInt s) = canonical A
      \<and> ipToBinary s = toBinary A \<and> length (ipToBinary s) = 35)
   \<and> parses_as (canonical A) A
   \<and> intToIp (ipToInt (canonical A)) = canonical A
   \<and> fromInt (toInt A) = A
   \<and> toInt (fromInt w) = w
   \<and> ipToInt (intToIp (Val (sint w))) = Val (sint w)
   \<and> ipToInt (intToIp (Val (uint w))) = Val (sint w)"
proof -
  have 1: "ipToInt s = Val (sint (toInt A)) \<and> is_int32 (ipToInt s)
      \<and> intToIp (ipToInt s) = canonical A
      \<and> ipToBinary s = toBinary A \<and> length (ipToBinary s) = 35" if "parses_as s A" for s
    using that
    by (simp add: ipToInt_sint is_int32_sint intToIp_canonical fromInt_toInt
        ipToBinary_parses length_toBinary)
  have 2: "parses_as (canonical A) A"
    by (rule canonical_parses)
  have 3: "ipToInt (intToIp (Val (sint w))) = Val (sint w)"
    "ipToInt (intToIp (Val (uint w))) = Val (sint w)"
    by (simp_all add: ipToInt_intToIp)
  from 1 [of s] 1 [OF 2] 2 3 fromInt_toInt [of A] toInt_fromInt [of w] show ?thesis
    by blast
qed

theorem ipToInt_intToIp_round_trip_witness:
  "parses_as ''192.168.001.10'' (Address 192 168 1 10)
   \<and> ipToInt ''192.168.001.10'' = Val (- 1062731510)
   \<and> intToIp (ipToInt ''192.168.001.10'') = ''192.168.1.10''
   \<and> ipToBinary ''192.168.001.10'' = ''11000000.10101000.00000001.00001010''"
proof -
  have 1: "parses_as ''192.168.001.10'' (Address 192 168 1 10)" by code_simp
  have 2: "canonical (Address 192 168 1 10) = ''192.168.1.10''" by code_simp
  have 3: "toBinary (Address 192 168 1 10) = ''11000000.10101000.00000001.00001010''" by code_simp
  have 4: "sint (toInt (Address 192 168 1 10)) = - 1062731510" by simp
  from ipToInt_intToIp_round_trip [of "''192.168.001.10''" "Address 192 168 1 10" 0] 1
  have a: "ipToInt ''192.168.001.10'' = Val (sint (toInt (Address 192 168 1 10)))"
    "intToIp (ipToInt ''192.168.001.10'') = canonical (Address 192 168 1 10)"
    "ipToBinary ''192.168.001.10'' = toBinary (Address 192 168 1 10)"
    by blast+
  from 1 a [unfolded 2 3 4] show ?thesis
    by blast
qed

text \<open>C4 as stated fails: \<open>ipToInt\<close> of 255.255.255.255 is \<open>-1\<close>, which is no uint32.\<close>

theorem ipToInt_not_unsigned:
  "\<not> is_uint32 (ipToInt ''255.255.255.255'')"
  by code_simp

section \<open>The mismatch explanation\<close>

lemma bit_toInt:
  assumes "i < 8"
  shows "bit (toInt (Address a b c d)) (i + 24) = bit a i"
    "bit (toInt (Address a b c d)) (i + 16) = bit b i"
    "bit (toInt (Address a b c d)) (i + 8) = bit c i"
    "bit (toInt (Address a b c d)) i = bit d i"
  using assms by (auto simp add: bit_simps dest: bit_imp_le_length)

lemma count_segment:
  fixes w :: "32 word" and x :: "8 word"
  assumes "\<And>i. i < 8 \<Longrightarrow> bit w (i + k) = bit x i"
  shows "length (filter (bit w) [k..<k + 8]) = length (filter (bit x) [0..<8])"
proof -
  have "[k..<k + 8] = map (\<lambda>i. i + k) [0..<8]"
    by (simp add: map_add_upt add.commute del: upt_Suc)
  moreover have "filter (bit w \<circ> (\<lambda>i. i + k)) [0..<8] = filter (bit x) [0..<8]"
    by (rule filter_cong) (simp_all add: assms)
  ultimately show ?thesis
    by (simp add: length_filter_map del: upt_Suc)
qed

lemma count_ones_binary8:
  "length (filter (\<lambda>c. c = CHR ''1'') (binary8 x)) = length (filter (bit x) [0..<8])"
proof -
  have "filter ((\<lambda>c. c = CHR ''1'') \<circ> (\<lambda>i. if bit x i then CHR ''1'' else CHR ''0'')) (rev [0..<8])
      = filter (bit x) (rev [0..<8])"
    by (rule filter_cong) simp_all
  then show ?thesis
    unfolding binary8_def by (simp add: length_filter_map flip: rev_filter del: upt_Suc)
qed

lemma popcount_toInt:
  "popcount (toInt (Address a b c d))
   = length (filter (bit a) [0..<8]) + length (filter (bit b) [0..<8])
     + length (filter (bit c) [0..<8]) + length (filter (bit d) [0..<8])"
proof -
  let ?P = "toInt (Address a b c d)"
  have "[0..<32] = [0..<0 + 8] @ [8..<8 + 8] @ [16..<16 + 8] @ [24..<24 + 8]"
    by code_simp
  then have "popcount ?P = length (filter (bit ?P) [0..<0 + 8]) + length (filter (bit ?P) [8..<8 + 8])
      + length (filter (bit ?P) [16..<16 + 8]) + length (filter (bit ?P) [24..<24 + 8])"
    unfolding popcount_def by (simp only: filter_append length_append add.assoc)
  also have "length (filter (bit ?P) [0..<0 + 8]) = length (filter (bit d) [0..<8])"
    by (rule count_segment) (simp add: bit_toInt del: toInt.simps)
  also have "length (filter (bit ?P) [8..<8 + 8]) = length (filter (bit c) [0..<8])"
    by (rule count_segment) (simp add: bit_toInt del: toInt.simps)
  also have "length (filter (bit ?P) [16..<16 + 8]) = length (filter (bit b) [0..<8])"
    by (rule count_segment) (simp add: bit_toInt del: toInt.simps)
  also have "length (filter (bit ?P) [24..<24 + 8]) = length (filter (bit a) [0..<8])"
    by (rule count_segment) (simp add: bit_toInt del: toInt.simps)
  finally show ?thesis by simp
qed

lemma count_ones_toBinary:
  "length (filter (\<lambda>c. c = CHR ''1'') (toBinary A)) = popcount (toInt A)"
proof (cases A)
  case (Address a b c d)
  show ?thesis
    unfolding Address popcount_toInt by (simp add: count_ones_binary8 del: upt_Suc)
qed

lemma mismatch_of_fields:
  assumes "parses_as ip A" "parses_as net N" "parses_as msk M"
  shows "to_word (expectedNetworkId (mismatch_of ip net msk)) = toInt N AND toInt M"
    "to_word (ipNetworkId (mismatch_of ip net msk)) = toInt A AND toInt M"
    "cidr (mismatch_of ip net msk) = popcount (toInt M)"
    "to_word (hostBits (mismatch_of ip net msk)) = NOT (toInt M)"
    "to_word (broadcastInt (mismatch_of ip net msk)) = (toInt N AND toInt M) OR NOT (toInt M)"
    "broadcastAddress (mismatch_of ip net msk)
       = canonical (fromInt ((toInt N AND toInt M) OR NOT (toInt M)))"
    "firstHost (mismatch_of ip net msk) = canonical (fromInt ((toInt N AND toInt M) + 1))"
    "lastHost (mismatch_of ip net msk)
       = canonical (fromInt (((toInt N AND toInt M) OR NOT (toInt M)) - 1))"
proof -
  have w: "to_word (ipToInt ip) = toInt A" "to_word (ipToInt net) = toInt N"
    "to_word (ipToInt msk) = toInt M"
    using assms by (simp_all add: to_word_ipToInt)
  have b: "ipToBinary msk = toBinary M"
    using assms(3) by (rule ipToBinary_parses)
  show "to_word (expectedNetworkId (mismatch_of ip net msk)) = toInt N AND toInt M"
    "to_word (ipNetworkId (mismatch_of ip net msk)) = toInt A AND toInt M"
    "to_word (hostBits (mismatch_of ip net msk)) = NOT (toInt M)"
    "to_word (broadcastInt (mismatch_of ip net msk)) = (toInt N AND toInt M) OR NOT (toInt M)"
    by (simp_all add: mismatch_of_def Let_def w)
  show "cidr (mismatch_of ip net msk) = popcount (toInt M)"
    by (simp add: mismatch_of_def Let_def b count_ones_toBinary)
  show "broadcastAddress (mismatch_of ip net msk)
       = canonical (fromInt ((toInt N AND toInt M) OR NOT (toInt M)))"
    by (simp add: mismatch_of_def Let_def intToIp_canonical w)
  show "firstHost (mismatch_of ip net msk) = canonical (fromInt ((toInt N AND toInt M) + 1))"
    by (simp add: mismatch_of_def Let_def intToIp_canonical js_and_def w)
  show "lastHost (mismatch_of ip net msk)
       = canonical (fromInt (((toInt N AND toInt M) OR NOT (toInt M)) - 1))"
    by (simp add: mismatch_of_def Let_def intToIp_canonical js_or_def js_and_def w)
qed

lemma fromInt_eq_iff: "(fromInt v = fromInt w) = (v = w)"
proof
  assume eq: "fromInt v = fromInt w"
  have "v = toInt (fromInt v)"
    by (simp only: toInt_fromInt)
  also have "\<dots> = toInt (fromInt w)"
    by (simp only: eq)
  also have "\<dots> = w"
    by (rule toInt_fromInt)
  finally show "v = w" .
qed simp

lemma popcount_le: "popcount w \<le> 32"
proof -
  have "length (filter (bit w) [0..<32]) \<le> length [0..<32]"
    by (rule length_filter_le)
  then show ?thesis
    by (simp add: popcount_def del: upt_Suc)
qed

lemma mismatch_of_text_fields:
  assumes "parses_as ip A" "parses_as net N" "parses_as msk M"
  shows "toString10 (Val (int (cidr (mismatch_of ip net msk)))) = digits_of 10 (popcount (toInt M))"
    and "networkBinary (mismatch_of ip net msk) = toBinary N"
    and "maskBinary (mismatch_of ip net msk) = toBinary M"
    and "ipBinary (mismatch_of ip net msk) = toBinary A"
    and "intToIp (expectedNetworkId (mismatch_of ip net msk)) = canonical (fromInt (toInt N AND toInt M))"
    and "expectedNetworkIdBinary (mismatch_of ip net msk) = toBinary (fromInt (toInt N AND toInt M))"
    and "intToIp (ipNetworkId (mismatch_of ip net msk)) = canonical (fromInt (toInt A AND toInt M))"
    and "ipNetworkIdBinary (mismatch_of ip net msk) = toBinary (fromInt (toInt A AND toInt M))"
    and "js_eq (ipNetworkId (mismatch_of ip net msk)) (expectedNetworkId (mismatch_of ip net msk))
         = (fromInt (toInt A AND toInt M) = fromInt (toInt N AND toInt M))"
proof -
  note f = mismatch_of_fields [OF assms]
  have w: "to_word (ipToInt ip) = toInt A" "to_word (ipToInt net) = toInt N"
    "to_word (ipToInt msk) = toInt M"
    using assms by (simp_all add: to_word_ipToInt)
  have "popcount (toInt M) < 10 ^ 21"
    using popcount_le [of "toInt M"] by simp
  then show "toString10 (Val (int (cidr (mismatch_of ip net msk)))) = digits_of 10 (popcount (toInt M))"
    unfolding f(3) by (rule toString10_small)
  show "networkBinary (mismatch_of ip net msk) = toBinary N"
    "maskBinary (mismatch_of ip net msk) = toBinary M"
    "ipBinary (mismatch_of ip net msk) = toBinary A"
    using assms by (simp_all add: mismatch_of_def Let_def ipToBinary_parses)
  show "intToIp (expectedNetworkId (mismatch_of ip net msk)) = canonical (fromInt (toInt N AND toInt M))"
    "intToIp (ipNetworkId (mismatch_of ip net msk)) = canonical (fromInt (toInt A AND toInt M))"
    by (simp_all only: intToIp_canonical f)
  show "expectedNetworkIdBinary (mismatch_of ip net msk) = toBinary (fromInt (toInt N AND toInt M))"
    "ipNetworkIdBinary (mismatch_of ip net msk) = toBinary (fromInt (toInt A AND toInt M))"
    by (simp_all add: mismatch_of_def Let_def intToIp_canonical w
        ipToBinary_parses [OF canonical_parses])
  show "js_eq (ipNetworkId (mismatch_of ip net msk)) (expectedNetworkId (mismatch_of ip net msk))
         = (fromInt (toInt A AND toInt M) = fromInt (toInt N AND toInt M))"
    by (simp add: mismatch_of_def Let_def js_eq_and w fromInt_eq_iff)
qed

lemma explainNetworkMismatch_narrative:
  assumes "parses_as ip A" "parses_as net N" "parses_as msk M"
  shows "explainNetworkMismatch ip net msk = narrative ip net msk A N M (explainMismatch A N M)"
  unfolding explainNetworkMismatch_def narrative_def Let_def
    mismatch_of_text_fields [OF assms] mismatch_of_fields(6,7,8) [OF assms]
  by (simp add: explainMismatch_def)

text \<open>
  C2.  For strings that denote addresses, the text \<open>explainNetworkMismatch\<close> returns is the
  narrative written over these fields: the network ID \<open>networkAddress & mask\<close>, the
  submitted address's network ID \<open>address & mask\<close>, the prefix length as the number of
  1-bits of the mask, the broadcast address \<open>networkID | ~mask\<close>, the first host
  \<open>networkID + 1\<close> and the last host \<open>broadcast - 1\<close>, all in 32-bit arithmetic, with
  no condition on the mask; the two network IDs differ exactly when \<open>isIpInNetwork\<close> is
  false.  For 10.0.1.5 against 10.0.0.0 / 255.255.255.0 the text and the values are those
  of the specification.
\<close>

theorem explainNetworkMismatch_explains:
  "(parses_as ip A \<and> parses_as net N \<and> parses_as msk M \<longrightarrow>
      explainNetworkMismatch ip net msk = narrative ip net msk A N M (explainMismatch A N M)
      \<and> isIpInNetwork ip net msk
          = (addressNetworkID (explainMismatch A N M) = networkID (explainMismatch A N M))
      \<and> intToIp (expectedNetworkId (mismatch_of ip net msk)) = canonical (fromInt (toInt N AND toInt M))
      \<and> intToIp (ipNetworkId (mismatch_of ip net msk)) = canonical (fromInt (toInt A AND toInt M))
      \<and> cidr (mismatch_of ip net msk) = popcount (toInt M)
      \<and> broadcastAddress (mismatch_of ip net msk)
          = canonical (fromInt ((toInt N AND toInt M) OR NOT (toInt M)))
      \<and> firstHost (mismatch_of ip net msk) = canonical (fromInt ((toInt N AND toInt M) + 1))
      \<and> lastHost (mismatch_of ip net msk)
          = canonical (fromInt (((toInt N AND toInt M) OR NOT (toInt M)) - 1)))
   \<and> explainNetworkMismatch ''10.0.1.5'' ''10.0.0.0'' ''255.255.255.0'' =
        ''Your IP address 10.0.1.5 does not belong to the network 10.0.0.0/24.\<newline>''
        @ ''\<newline>''
        @ ''Here'' @ [CHR 0x27] @ ''s why:\<newline>''
        @ ''\<newline>''
        @ ''1. Network ID Calculation:\<newline>''
        @ ''   Network Address: 10.0.0.0 (00001010.00000000.00000000.00000000)\<newline>''
        @ ''   Subnet Mask:     255.255.255.0 (11111111.11111111.11111111.00000000)\<newline>''
        @ ''   Network ID:      10.0.0.0 (00001010.00000000.00000000.00000000)\<newline>''
        @ ''\<newline>''
        @ ''2. Your IP'' @ [CHR 0x27] @ ''s Network ID:\<newline>''
        @ ''   Your IP:         10.0.1.5 (00001010.00000000.00000001.00000101)\<newline>''
        @ ''   Subnet Mask:     255.255.255.0 (11111111.11111111.11111111.00000000)\<newline>''
        @ ''   Calculated ID:   10.0.1.0 (00001010.00000000.00000001.00000000)\<newline>''
        @ ''\<newline>''
        @ ''3. The Problem:\<newline>''
        @ ''   Your IP'' @ [CHR 0x27] @ ''s network ID (10.0.1.0) does not match the required network ID (10.0.0.0).\<newline>''
        @ ''   This means your IP is in a different network.\<newline>''
        @ ''\<newline>''
        @ ''4. Valid IP Range for this Network:\<newline>''
        @ ''   Network Address: 10.0.0.0 (reserved)\<newline>''
        @ ''   First Host:      10.0.0.1\<newline>''
        @ ''   Last Host:       10.0.0.254\<newline>''
        @ ''   Broadcast:       10.0.0.255 (reserved)\<newline>''
        @ ''\<newline>''
        @ ''   Valid host IPs: 10.0.0.1 to 10.0.0.254''
   \<and> explainMismatch (Address 10 0 1 5) (Address 10 0 0 0) (Address 255 255 255 0) =
        \<lparr> networkID = Address 10 0 0 0, addressNetworkID = Address 10 0 1 0,
          prefixLength = 24, broadcast = Address 10 0 0 255,
          firstHostAddress = Address 10 0 0 1, lastHostAddress = Address 10 0 0 254 \<rparr>
   \<and> intToIp (expectedNetworkId (mismatch_of ''10.0.1.5'' ''10.0.0.0'' ''255.255.255.0'')) = ''10.0.0.0''
   \<and> intToIp (ipNetworkId (mismatch_of ''10.0.1.5'' ''10.0.0.0'' ''255.255.255.0'')) = ''10.0.1.0''
   \<and> firstHost (mismatch_of ''10.0.1.5'' ''10.0.0.0'' ''255.255.255.0'') = ''10.0.0.1''
   \<and> lastHost (mismatch_of ''10.0.1.5'' ''10.0.0.0'' ''255.255.255.0'') = ''10.0.0.254''
   \<and> broadcastAddress (mismatch_of ''10.0.1.5'' ''10.0.0.0'' ''255.255.255.0'') = ''10.0.0.255''
   \<and> cidr (mismatch_of ''10.0.1.5'' ''10.0.0.0'' ''255.255.255.0'') = 24"
proof -
  have general: "explainNetworkMismatch ip net msk = narrative ip net msk A N M (explainMismatch A N M)
      \<and> isIpInNetwork ip net msk
          = (addressNetworkID (explainMismatch A N M) = networkID (explainMismatch A N M))
      \<and> intToIp (expectedNetworkId (mismatch_of ip net msk)) = canonical (fromInt (toInt N AND toInt M))
      \<and> intToIp (ipNetworkId (mismatch_of ip net msk)) = canonical (fromInt (toInt A AND toInt M))
      \<and> cidr (mismatch_of ip net msk) = popcount (toInt M)
      \<and> broadcastAddress (mismatch_of ip net msk)
          = canonical (fromInt ((toInt N AND toInt M) OR NOT (toInt M)))
      \<and> firstHost (mismatch_of ip net msk) = canonical (fromInt ((toInt N AND toInt M) + 1))
      \<and> lastHost (mismatch_of ip net msk)
          = canonical (fromInt (((toInt N AND toInt M) OR NOT (toInt M)) - 1))"
    if "parses_as ip A \<and> parses_as net N \<and> parses_as msk M"
  proof -
    from that have p: "parses_as ip A" "parses_as net N" "parses_as msk M"
      by simp_all
    have w: "to_word (ipToInt ip) = toInt A" "to_word (ipToInt net) = toInt N"
      "to_word (ipToInt msk) = toInt M"
      using p by (simp_all add: to_word_ipToInt)
    have t: "explainNetworkMismatch ip net msk = narrative ip net msk A N M (explainMismatch A N M)"
      using p by (rule explainNetworkMismatch_narrative)
    have i: "isIpInNetwork ip net msk
          = (addressNetworkID (explainMismatch A N M) = networkID (explainMismatch A N M))"
      by (simp add: isIpInNetwork_def Let_def js_eq_and w explainMismatch_def fromInt_eq_iff)
    from t i mismatch_of_fields [OF p] show ?thesis
      by (simp add: intToIp_canonical)
  qed
  have e24: "explainNetworkMismatch ''10.0.1.5'' ''10.0.0.0'' ''255.255.255.0'' =
        ''Your IP address 10.0.1.5 does not belong to the network 10.0.0.0/24.\<newline>''
        @ ''\<newline>''
        @ ''Here'' @ [CHR 0x27] @ ''s why:\<newline>''
        @ ''\<newline>''
        @ ''1. Network ID Calculation:\<newline>''
        @ ''   Network Address: 10.0.0.0 (00001010.00000000.00000000.00000000)\<newline>''
        @ ''   Subnet Mask:     255.255.255.0 (11111111.11111111.11111111.00000000)\<newline>''
        @ ''   Network ID:      10.0.0.0 (00001010.00000000.00000000.00000000)\<newline>''
        @ ''\<newline>''
        @ ''2. Your IP'' @ [CHR 0x27] @ ''s Network ID:\<newline>''
        @ ''   Your IP:         10.0.1.5 (00001010.00000000.00000001.00000101)\<newline>''
        @ ''   Subnet Mask:     255.255.255.0 (11111111.11111111.11111111.00000000)\<newline>''
        @ ''   Calculated ID:   10.0.1.0 (00001010.00000000.00000001.00000000)\<newline>''
        @ ''\<newline>''
        @ ''3. The Problem:\<newline>''
        @ ''   Your IP'' @ [CHR 0x27] @ ''s network ID (10.0.1.0) does not match the required network ID (10.0.0.0).\<newline>''
        @ ''   This means your IP is in a different network.\<newline>''
        @ ''\<newline>''
        @ ''4. Valid IP Range for this Network:\<newline>''
        @ ''   Network Address: 10.0.0.0 (reserved)\<newline>''
        @ ''   First Host:      10.0.0.1\<newline>''
        @ ''   Last Host:       10.0.0.254\<newline>''
        @ ''   Broadcast:       10.0.0.255 (reserved)\<newline>''
        @ ''\<newline>''
        @ ''   Valid host IPs: 10.0.0.1 to 10.0.0.254''"
    by code_simp
  have x24: "explainMismatch (Address 10 0 1 5) (Address 10 0 0 0) (Address 255 255 255 0) =
        \<lparr> networkID = Address 10 0 0 0, addressNetworkID = Address 10 0 1 0,
          prefixLength = 24, broadcast = Address 10 0 0 255,
          firstHostAddress = Address 10 0 0 1, lastHostAddress = Address 10 0 0 254 \<rparr>"
    by code_simp
  have r24: "mismatch_of ''10.0.1.5'' ''10.0.0.0'' ''255.255.255.0'' =
    \<lparr>ipNetworkId = Val 167772416, expectedNetworkId = Val 167772160,
      ipBinary = ''00001010.00000000.00000001.00000101'',
      networkBinary = ''00001010.00000000.00000000.00000000'',
      maskBinary = ''11111111.11111111.11111111.00000000'',
      ipNetworkIdBinary = ''00001010.00000000.00000001.00000000'',
      expectedNetworkIdBinary = ''00001010.00000000.00000000.00000000'',
      cidr = 24, hostBits = Val 255, broadcastInt = Val 167772415,
      broadcastAddress = ''10.0.0.255'', firstHost = ''10.0.0.1'',
      lastHost = ''10.0.0.254''\<rparr>"
    by code_simp
  have i1: "intToIp (Val 167772160) = ''10.0.0.0''"
    by code_simp
  have i2: "intToIp (Val 167772416) = ''10.0.1.0''"
    by code_simp
  have fields: "intToIp (expectedNetworkId (mismatch_of ''10.0.1.5'' ''10.0.0.0'' ''255.255.255.0'')) = ''10.0.0.0''
   \<and> intToIp (ipNetworkId (mismatch_of ''10.0.1.5'' ''10.0.0.0'' ''255.255.255.0'')) = ''10.0.1.0''
   \<and> firstHost (mismatch_of ''10.0.1.5'' ''10.0.0.0'' ''255.255.255.0'') = ''10.0.0.1''
   \<and> lastHost (mismatch_of ''10.0.1.5'' ''10.0.0.0'' ''255.255.255.0'') = ''10.0.0.254''
   \<and> broadcastAddress (mismatch_of ''10.0.1.5'' ''10.0.0.0'' ''255.255.255.0'') = ''10.0.0.255''
   \<and> cidr (mismatch_of ''10.0.1.5'' ''10.0.0.0'' ''255.255.255.0'') = 24"
    by (simp add: r24 i1 i2)
  show ?thesis
    by (rule conjI, rule impI, erule general, rule conjI [OF e24 conjI [OF x24 fields]])
qed


text \<open>The masks /31 and /32 go through the same arithmetic.\<close>

theorem explainNetworkMismatch_explains_witness:
  "parses_as ''10.0.1.5'' (Address 10 0 1 5) \<and> parses_as ''10.0.0.0'' (Address 10 0 0 0)
   \<and> parses_as ''255.255.255.254'' (Address 255 255 255 254)
   \<and> parses_as ''255.255.255.255'' (Address 255 255 255 255)
   \<and> explainNetworkMismatch ''10.0.1.5'' ''10.0.0.0'' ''255.255.255.254'' =
        ''Your IP address 10.0.1.5 does not belong to the network 10.0.0.0/31.\<newline>''
        @ ''\<newline>''
        @ ''Here'' @ [CHR 0x27] @ ''s why:\<newline>''
        @ ''\<newline>''
        @ ''1. Network ID Calculation:\<newline>''
        @ ''   Network Address: 10.0.0.0 (00001010.00000000.00000000.00000000)\<newline>''
        @ ''   Subnet Mask:     255.255.255.254 (11111111.11111111.11111111.11111110)\<newline>''
        @ ''   Network ID:      10.0.0.0 (00001010.00000000.00000000.00000000)\<newline>''
        @ ''\<newline>''
        @ ''2. Your IP'' @ [CHR 0x27] @ ''s Network ID:\<newline>''
        @ ''   Your IP:         10.0.1.5 (00001010.00000000.00000001.00000101)\<newline>''
        @ ''   Subnet Mask:     255.255.255.254 (11111111.11111111.11111111.11111110)\<newline>''
        @ ''   Calculated ID:   10.0.1.4 (00001010.00000000.00000001.00000100)\<newline>''
        @ ''\<newline>''
        @ ''3. The Problem:\<newline>''
        @ ''   Your IP'' @ [CHR 0x27] @ ''s network ID (10.0.1.4) does not match the required network ID (10.0.0.0).\<newline>''
        @ ''   This means your IP is in a different network.\<newline>''
        @ ''\<newline>''
        @ ''4. Valid IP Range for this Network:\<newline>''
        @ ''   Network Address: 10.0.0.0 (reserved)\<newline>''
        @ ''   First Host:      10.0.0.1\<newline>''
        @ ''   Last Host:       10.0.0.0\<newline>''
        @ ''   Broadcast:       10.0.0.1 (reserved)\<newline>''
        @ ''\<newline>''
        @ ''   Valid host IPs: 10.0.0.1 to 10.0.0.0''
   \<and> explainNetworkMismatch ''10.0.1.5'' ''10.0.0.0'' ''255.255.255.255'' =
        ''Your IP address 10.0.1.5 does not belong to the network 10.0.0.0/32.\<newline>''
        @ ''\<newline>''
        @ ''Here'' @ [CHR 0x27] @ ''s why:\<newline>''
        @ ''\<newline>''
        @ ''1. Network ID Calculation:\<newline>''
        @ ''   Network Address: 10.0.0.0 (00001010.00000000.00000000.00000000)\<newline>''
        @ ''   Subnet Mask:     255.255.255.255 (11111111.11111111.11111111.11111111)\<newline>''
        @ ''   Network ID:      10.0.0.0 (00001010.00000000.00000000.00000000)\<newline>''
        @ ''\<newline>''
        @ ''2. Your IP'' @ [CHR 0x27] @ ''s Network ID:\<newline>''
        @ ''   Your IP:         10.0.1.5 (00001010.00000000.00000001.00000101)\<newline>''
        @ ''   Subnet Mask:     255.255.255.255 (11111111.11111111.11111111.11111111)\<newline>''
        @ ''   Calculated ID:   10.0.1.5 (00001010.00000000.00000001.00000101)\<newline>''
        @ ''\<newline>''
        @ ''3. The Problem:\<newline>''
        @ ''   Your IP'' @ [CHR 0x27] @ ''s network ID (10.0.1.5) does not match the required network ID (10.0.0.0).\<newline>''
        @ ''   This means your IP is in a different network.\<newline>''
        @ ''\<newline>''
        @ ''4. Valid IP Range for this Network:\<newline>''
        @ ''   Network Address: 10.0.0.0 (reserved)\<newline>''
        @ ''   First Host:      10.0.0.1\<newline>''
        @ ''   Last Host:       9.255.255.255\<newline>''
        @ ''   Broadcast:       10.0.0.0 (reserved)\<newline>''
        @ ''\<newline>''
        @ ''   Valid host IPs: 10.0.0.1 to 9.255.255.255''
   \<and> \<not> isIpInNetwork ''10.0.1.5'' ''10.0.0.0'' ''255.255.255.254''
   \<and> \<not> isIpInNetwork ''10.0.1.5'' ''10.0.0.0'' ''255.255.255.255''
   \<and> firstHost (mismatch_of ''10.0.1.5'' ''10.0.0.0'' ''255.255.255.254'') = ''10.0.0.1''
   \<and> lastHost (mismatch_of ''10.0.1.5'' ''10.0.0.0'' ''255.255.255.254'') = ''10.0.0.0''
   \<and> broadcastAddress (mismatch_of ''10.0.1.5'' ''10.0.0.0'' ''255.255.255.254'') = ''10.0.0.1''
   \<and> cidr (mismatch_of ''10.0.1.5'' ''10.0.0.0'' ''255.255.255.254'') = 31
   \<and> firstHost (mismatch_of ''10.0.1.5'' ''10.0.0.0'' ''255.255.255.255'') = ''10.0.0.1''
   \<and> lastHost (mismatch_of ''10.0.1.5'' ''10.0.0.0'' ''255.255.255.255'') = ''9.255.255.255''
   \<and> broadcastAddress (mismatch_of ''10.0.1.5'' ''10.0.0.0'' ''255.255.255.255'') = ''10.0.0.0''
   \<and> cidr (mismatch_of ''10.0.1.5'' ''10.0.0.0'' ''255.255.255.255'') = 32"
proof -
  let ?A = "Address 10 0 1 5" and ?N = "Address 10 0 0 0"
  let ?M31 = "Address 255 255 255 254" and ?M32 = "Address 255 255 255 255"
  have p: "parses_as ''10.0.1.5'' ?A" "parses_as ''10.0.0.0'' ?N"
    "parses_as ''255.255.255.254'' ?M31" "parses_as ''255.255.255.255'' ?M32"
    by code_simp+
  have n31: "narrative ''10.0.1.5'' ''10.0.0.0'' ''255.255.255.254'' ?A ?N ?M31 (explainMismatch ?A ?N ?M31) =
        ''Your IP address 10.0.1.5 does not belong to the network 10.0.0.0/31.\<newline>''
        @ ''\<newline>''
        @ ''Here'' @ [CHR 0x27] @ ''s why:\<newline>''
        @ ''\<newline>''
        @ ''1. Network ID Calculation:\<newline>''
        @ ''   Network Address: 10.0.0.0 (00001010.00000000.00000000.00000000)\<newline>''
        @ ''   Subnet Mask:     255.255.255.254 (11111111.11111111.11111111.11111110)\<newline>''
        @ ''   Network ID:      10.0.0.0 (00001010.00000000.00000000.00000000)\<newline>''
        @ ''\<newline>''
        @ ''2. Your IP'' @ [CHR 0x27] @ ''s Network ID:\<newline>''
        @ ''   Your IP:         10.0.1.5 (00001010.00000000.00000001.00000101)\<newline>''
        @ ''   Subnet Mask:     255.255.255.254 (11111111.11111111.11111111.11111110)\<newline>''
        @ ''   Calculated ID:   10.0.1.4 (00001010.00000000.00000001.00000100)\<newline>''
        @ ''\<newline>''
        @ ''3. The Problem:\<newline>''
        @ ''   Your IP'' @ [CHR 0x27] @ ''s network ID (10.0.1.4) does not match the required network ID (10.0.0.0).\<newline>''
        @ ''   This means your IP is in a different network.\<newline>''
        @ ''\<newline>''
        @ ''4. Valid IP Range for this Network:\<newline>''
        @ ''   Network Address: 10.0.0.0 (reserved)\<newline>''
        @ ''   First Host:      10.0.0.1\<newline>''
        @ ''   Last Host:       10.0.0.0\<newline>''
        @ ''   Broadcast:       10.0.0.1 (reserved)\<newline>''
        @ ''\<newline>''
        @ ''   Valid host IPs: 10.0.0.1 to 10.0.0.0''"
    by code_simp
  have n32: "narrative ''10.0.1.5'' ''10.0.0.0'' ''255.255.255.255'' ?A ?N ?M32 (explainMismatch ?A ?N ?M32) =
        ''Your IP address 10.0.1.5 does not belong to the network 10.0.0.0/32.\<newline>''
        @ ''\<newline>''
        @ ''Here'' @ [CHR 0x27] @ ''s why:\<newline>''
        @ ''\<newline>''
        @ ''1. Network ID Calculation:\<newline>''
        @ ''   Network Address: 10.0.0.0 (00001010.00000000.00000000.00000000)\<newline>''
        @ ''   Subnet Mask:     255.255.255.255 (11111111.11111111.11111111.11111111)\<newline>''
        @ ''   Network ID:      10.0.0.0 (00001010.00000000.00000000.00000000)\<newline>''
        @ ''\<newline>''
        @ ''2. Your IP'' @ [CHR 0x27] @ ''s Network ID:\<newline>''
        @ ''   Your IP:         10.0.1.5 (00001010.00000000.00000001.00000101)\<newline>''
        @ ''   Subnet Mask:     255.255.255.255 (11111111.11111111.11111111.11111111)\<newline>''
        @ ''   Calculated ID:   10.0.1.5 (00001010.00000000.00000001.00000101)\<newline>''
        @ ''\<newline>''
        @ ''3. The Problem:\<newline>''
        @ ''   Your IP'' @ [CHR 0x27] @ ''s network ID (10.0.1.5) does not match the required network ID (10.0.0.0).\<newline>''
        @ ''   This means your IP is in a different network.\<newline>''
        @ ''\<newline>''
        @ ''4. Valid IP Range for this Network:\<newline>''
        @ ''   Network Address: 10.0.0.0 (reserved)\<newline>''
        @ ''   First Host:      10.0.0.1\<newline>''
        @ ''   Last Host:       9.255.255.255\<newline>''
        @ ''   Broadcast:       10.0.0.0 (reserved)\<newline>''
        @ ''\<newline>''
        @ ''   Valid host IPs: 10.0.0.1 to 9.255.255.255''"
    by code_simp
  have d: "addressNetworkID (explainMismatch ?A ?N ?M31) \<noteq> networkID (explainMismatch ?A ?N ?M31)"
    "addressNetworkID (explainMismatch ?A ?N ?M32) \<noteq> networkID (explainMismatch ?A ?N ?M32)"
    by code_simp+
  have c31: "canonical (fromInt ((toInt ?N AND toInt ?M31) + 1)) = ''10.0.0.1''"
    "canonical (fromInt (((toInt ?N AND toInt ?M31) OR NOT (toInt ?M31)) - 1)) = ''10.0.0.0''"
    "canonical (fromInt ((toInt ?N AND toInt ?M31) OR NOT (toInt ?M31))) = ''10.0.0.1''"
    "popcount (toInt ?M31) = 31"
    by code_simp+
  have c32: "canonical (fromInt ((toInt ?N AND toInt ?M32) + 1)) = ''10.0.0.1''"
    "canonical (fromInt (((toInt ?N AND toInt ?M32) OR NOT (toInt ?M32)) - 1)) = ''9.255.255.255''"
    "canonical (fromInt ((toInt ?N AND toInt ?M32) OR NOT (toInt ?M32))) = ''10.0.0.0''"
    "popcount (toInt ?M32) = 32"
    by code_simp+
  note T31 = explainNetworkMismatch_explains [of "''10.0.1.5''" ?A "''10.0.0.0''" ?N "''255.255.255.254''" ?M31,
      THEN conjunct1, THEN mp, OF conjI [OF p(1) conjI [OF p(2) p(3)]]]
  note T32 = explainNetworkMismatch_explains [of "''10.0.1.5''" ?A "''10.0.0.0''" ?N "''255.255.255.255''" ?M32,
      THEN conjunct1, THEN mp, OF conjI [OF p(1) conjI [OF p(2) p(4)]]]
  from T31
  have t31: "explainNetworkMismatch ''10.0.1.5'' ''10.0.0.0'' ''255.255.255.254''
        = narrative ''10.0.1.5'' ''10.0.0.0'' ''255.255.255.254'' ?A ?N ?M31 (explainMismatch ?A ?N ?M31)"
    "isIpInNetwork ''10.0.1.5'' ''10.0.0.0'' ''255.255.255.254''
        = (addressNetworkID (explainMismatch ?A ?N ?M31) = networkID (explainMismatch ?A ?N ?M31))"
    "firstHost (mismatch_of ''10.0.1.5'' ''10.0.0.0'' ''255.255.255.254'')
        = canonical (fromInt ((toInt ?N AND toInt ?M31) + 1))"
    "lastHost (mismatch_of ''10.0.1.5'' ''10.0.0.0'' ''255.255.255.254'')
        = canonical (fromInt (((toInt ?N AND toInt ?M31) OR NOT (toInt ?M31)) - 1))"
    "broadcastAddress (mismatch_of ''10.0.1.5'' ''10.0.0.0'' ''255.255.255.254'')
        = canonical (fromInt ((toInt ?N AND toInt ?M31) OR NOT (toInt ?M31)))"
    "cidr (mismatch_of ''10.0.1.5'' ''10.0.0.0'' ''255.255.255.254'') = popcount (toInt ?M31)"
    by (simp_all only:)
  from T32
  have t32: "explainNetworkMismatch ''10.0.1.5'' ''10.0.0.0'' ''255.255.255.255''
        = narrative ''10.0.1.5'' ''10.0.0.0'' ''255.255.255.255'' ?A ?N ?M32 (explainMismatch ?A ?N ?M32)"
    "isIpInNetwork ''10.0.1.5'' ''10.0.0.0'' ''255.255.255.255''
        = (addressNetworkID (explainMismatch ?A ?N ?M32) = networkID (explainMismatch ?A ?N ?M32))"
    "firstHost (mismatch_of ''10.0.1.5'' ''10.0.0.0'' ''255.255.255.255'')
        = canonical (fromInt ((toInt ?N AND toInt ?M32) + 1))"
    "lastHost (mismatch_of ''10.0.1.5'' ''10.0.0.0'' ''255.255.255.255'')
        = canonical (fromInt (((toInt ?N AND toInt ?M32) OR NOT (toInt ?M32)) - 1))"
    "broadcastAddress (mismatch_of ''10.0.1.5'' ''10.0.0.0'' ''255.255.255.255'')
        = canonical (fromInt ((toInt ?N AND toInt ?M32) OR NOT (toInt ?M32)))"
    "cidr (mismatch_of ''10.0.1.5'' ''10.0.0.0'' ''255.255.255.255'') = popcount (toInt ?M32)"
    by (simp_all only:)
  have e31: "explainNetworkMismatch ''10.0.1.5'' ''10.0.0.0'' ''255.255.255.254'' =
        ''Your IP address 10.0.1.5 does not belong to the network 10.0.0.0/31.\<newline>''
        @ ''\<newline>''
        @ ''Here'' @ [CHR 0x27] @ ''s why:\<newline>''
        @ ''\<newline>''
        @ ''1. Network ID Calculation:\<newline>''
        @ ''   Network Address: 10.0.0.0 (00001010.00000000.00000000.00000000)\<newline>''
        @ ''   Subnet Mask:     255.255.255.254 (11111111.11111111.11111111.11111110)\<newline>''
        @ ''   Network ID:      10.0.0.0 (00001010.00000000.00000000.00000000)\<newline>''
        @ ''\<newline>''
        @ ''2. Your IP'' @ [CHR 0x27] @ ''s Network ID:\<newline>''
        @ ''   Your IP:         10.0.1.5 (00001010.00000000.00000001.00000101)\<newline>''
        @ ''   Subnet Mask:     255.255.255.254 (11111111.11111111.11111111.11111110)\<newline>''
        @ ''   Calculated ID:   10.0.1.4 (00001010.00000000.00000001.00000100)\<newline>''
        @ ''\<newline>''
        @ ''3. The Problem:\<newline>''
        @ ''   Your IP'' @ [CHR 0x27] @ ''s network ID (10.0.1.4) does not match the required network ID (10.0.0.0).\<newline>''
        @ ''   This means your IP is in a different network.\<newline>''
        @ ''\<newline>''
        @ ''4. Valid IP Range for this Network:\<newline>''
        @ ''   Network Address: 10.0.0.0 (reserved)\<newline>''
        @ ''   First Host:      10.0.0.1\<newline>''
        @ ''   Last Host:       10.0.0.0\<newline>''
        @ ''   Broadcast:       10.0.0.1 (reserved)\<newline>''
        @ ''\<newline>''
        @ ''   Valid host IPs: 10.0.0.1 to 10.0.0.0''"
    by (simp only: t31(1) n31)
  have e32: "explainNetworkMismatch ''10.0.1.5'' ''10.0.0.0'' ''255.255.255.255'' =
        ''Your IP address 10.0.1.5 does not belong to the network 10.0.0.0/32.\<newline>''
        @ ''\<newline>''
        @ ''Here'' @ [CHR 0x27] @ ''s why:\<newline>''
        @ ''\<newline>''
        @ ''1. Network ID Calculation:\<newline>''
        @ ''   Network Address: 10.0.0.0 (00001010.00000000.00000000.00000000)\<newline>''
        @ ''   Subnet Mask:     255.255.255.255 (11111111.11111111.11111111.11111111)\<newline>''
        @ ''   Network ID:      10.0.0.0 (00001010.00000000.00000000.00000000)\<newline>''
        @ ''\<newline>''
        @ ''2. Your IP'' @ [CHR 0x27] @ ''s Network ID:\<newline>''
        @ ''   Your IP:         10.0.1.5 (00001010.00000000.00000001.00000101)\<newline>''
        @ ''   Subnet Mask:     255.255.255.255 (11111111.11111111.11111111.11111111)\<newline>''
        @ ''   Calculated ID:   10.0.1.5 (00001010.00000000.00000001.00000101)\<newline>''
        @ ''\<newline>''
        @ ''3. The Problem:\<newline>''
        @ ''   Your IP'' @ [CHR 0x27] @ ''s network ID (10.0.1.5) does not match the required network ID (10.0.0.0).\<newline>''
        @ ''   This means your IP is in a different network.\<newline>''
        @ ''\<newline>''
        @ ''4. Valid IP Range for this Network:\<newline>''
        @ ''   Network Address: 10.0.0.0 (reserved)\<newline>''
        @ ''   First Host:      10.0.0.1\<newline>''
        @ ''   Last Host:       9.255.255.255\<newline>''
        @ ''   Broadcast:       10.0.0.0 (reserved)\<newline>''
        @ ''\<newline>''
        @ ''   Valid host IPs: 10.0.0.1 to 9.255.255.255''"
    by (simp only: t32(1) n32)
  have ni: "\<not> isIpInNetwork ''10.0.1.5'' ''10.0.0.0'' ''255.255.255.254''"
    "\<not> isIpInNetwork ''10.0.1.5'' ''10.0.0.0'' ''255.255.255.255''"
    using d by (simp_all only: t31(2) t32(2) not_False_eq_True simp_thms)
  show ?thesis
    by (intro conjI p e31 e32 ni) (simp_all only: t31 t32 c31 c32)
qed


section \<open>Validation\<close>

subsection \<open>\<open>trim\<close> and \<open>parseInt\<close>\<close>

lemma trim_split: "dropWhile isWhiteSpace s = trim s @ rev (takeWhile isWhiteSpace (rev (dropWhile isWhiteSpace s)))"
proof -
  have "rev (dropWhile isWhiteSpace s)
      = takeWhile isWhiteSpace (rev (dropWhile isWhiteSpace s))
        @ dropWhile isWhiteSpace (rev (dropWhile isWhiteSpace s))"
    by simp
  then have "rev (rev (dropWhile isWhiteSpace s))
      = rev (takeWhile isWhiteSpace (rev (dropWhile isWhiteSpace s))
        @ dropWhile isWhiteSpace (rev (dropWhile isWhiteSpace s)))"
    by (rule arg_cong)
  then show ?thesis
    by (simp only: rev_rev_ident rev_append trim_def)
qed

lemma set_trim: "set (trim s) \<subseteq> set s"
proof
  fix x
  assume "x \<in> set (trim s)"
  then have "x \<in> set (dropWhile isWhiteSpace (rev (dropWhile isWhiteSpace s)))"
    by (simp add: trim_def)
  then have "x \<in> set (rev (dropWhile isWhiteSpace s))"
    by (rule set_dropWhileD)
  then have "x \<in> set (dropWhile isWhiteSpace s)"
    by simp
  then show "x \<in> set s"
    by (rule set_dropWhileD)
qed

lemma trim_empty: "trim s = [] \<Longrightarrow> dropWhile isWhiteSpace s = []"
proof (rule ccontr)
  let ?t = "dropWhile isWhiteSpace s"
  assume "trim s = []" and t: "?t \<noteq> []"
  then have "dropWhile isWhiteSpace (rev ?t) = []"
    by (simp add: trim_def)
  then have "\<forall>x\<in>set (rev ?t). isWhiteSpace x"
    by (simp only: dropWhile_eq_Nil_conv)
  moreover from t have "hd ?t \<in> set (rev ?t)"
    by simp
  moreover from t have "\<not> isWhiteSpace (hd ?t)"
    by (rule hd_dropWhile)
  ultimately show False
    by blast
qed

lemma trim_ends:
  assumes "trim s \<noteq> []"
  shows "\<not> isWhiteSpace (hd (trim s))" "\<not> isWhiteSpace (last (trim s))"
proof -
  let ?t = "dropWhile isWhiteSpace s"
  have "?t = [] \<Longrightarrow> trim s = []"
    by (simp only: trim_def rev.simps dropWhile.simps)
  with assms have t: "?t \<noteq> []"
    by blast
  then have "\<not> isWhiteSpace (hd ?t)"
    by (rule hd_dropWhile)
  moreover have "hd ?t = hd (trim s)"
    using assms by (subst trim_split) simp
  ultimately show "\<not> isWhiteSpace (hd (trim s))" by simp
  from assms have "dropWhile isWhiteSpace (rev ?t) \<noteq> []"
    by (simp add: trim_def)
  then have "\<not> isWhiteSpace (hd (dropWhile isWhiteSpace (rev ?t)))"
    by (rule hd_dropWhile)
  then show "\<not> isWhiteSpace (last (trim s))"
    using assms by (simp add: trim_def last_rev)
qed

lemma trim_id:
  assumes "s \<noteq> []" "\<not> isWhiteSpace (hd s)" "\<not> isWhiteSpace (last s)"
  shows "trim s = s"
proof -
  from assms obtain c r where s: "s = c # r" by (cases s) auto
  with assms have 1: "dropWhile isWhiteSpace s = s" by simp
  from assms have "rev s \<noteq> []" "\<not> isWhiteSpace (hd (rev s))"
    by (simp_all add: hd_rev)
  then have "dropWhile isWhiteSpace (rev s) = rev s"
    by (cases "rev s") auto
  with 1 show ?thesis
    by (simp add: trim_def)
qed

lemma trim_trim: "trim (trim s) = trim s"
proof (cases "trim s = []")
  case True
  have "trim [] = []"
    by (simp add: trim_def)
  with True show ?thesis
    by (simp only:)
next
  case False
  then show ?thesis
    by (intro trim_id trim_ends)
qed

lemma takeWhile_digit_ws:
  assumes "\<forall>c\<in>set w. isWhiteSpace c"
  shows "takeWhile isDigit (u @ w) = takeWhile isDigit u"
proof -
  have "takeWhile isDigit w = []"
    using assms by (cases w) (auto dest: isDigit_not_special(1))
  show ?thesis
  proof (cases "\<forall>x\<in>set u. isDigit x")
    case True
    then have "takeWhile isDigit (u @ w) = u @ takeWhile isDigit w"
      by (intro takeWhile_append2) simp
    with True \<open>takeWhile isDigit w = []\<close> show ?thesis
      by (simp add: takeWhile_eq_all_conv [THEN iffD2])
  next
    case False
    then obtain x where "x \<in> set u" "\<not> isDigit x" by blast
    then show ?thesis
      by (rule takeWhile_append1)
  qed
qed

lemma parseInt_trim: "parseInt (trim s) = parseInt s"
proof (cases "trim s = []")
  case True
  then have "dropWhile isWhiteSpace s = []"
    by (rule trim_empty)
  with True show ?thesis
    by (simp only: parseInt_def dropWhile.simps)
next
  case False
  obtain w where w: "\<forall>c\<in>set w. isWhiteSpace c"
    and t: "dropWhile isWhiteSpace s = trim s @ w"
  proof
    show "\<forall>c\<in>set (rev (takeWhile isWhiteSpace (rev (dropWhile isWhiteSpace s)))). isWhiteSpace c"
      by (auto dest: set_takeWhileD)
    show "dropWhile isWhiteSpace s
        = trim s @ rev (takeWhile isWhiteSpace (rev (dropWhile isWhiteSpace s)))"
      by (rule trim_split)
  qed
  from False obtain c r where u: "trim s = c # r"
    by (cases "trim s") auto
  with trim_ends(1) [OF False] have c: "\<not> isWhiteSpace c" by simp
  then have d: "dropWhile isWhiteSpace (trim s) = trim s"
    by (simp add: u)
  have t': "dropWhile isWhiteSpace s = c # (r @ w)"
    using t u by simp
  have tw: "takeWhile isDigit (r @ w) = takeWhile isDigit r"
    "takeWhile isDigit ((c # r) @ w) = takeWhile isDigit (c # r)"
    by (rule takeWhile_digit_ws [OF w])+
  show ?thesis
    unfolding parseInt_def d
    unfolding t' u
    using tw by (simp add: Let_def)
qed

subsection \<open>Normalization and the second parse\<close>

lemma toString10_safe:
  assumes "\<bar>v\<bar> \<le> 2 ^ 53"
  shows "toString10 (Val v) = (if v < 0 then ''-'' else '''') @ digits_of 10 (nat \<bar>v\<bar>)"
proof -
  from assms have "nat \<bar>v\<bar> < 10 ^ 21" by simp
  then have "length (digits_of 10 (nat \<bar>v\<bar>)) \<le> 21"
    by (rule length_digits_of_10) simp
  then show ?thesis by simp
qed

lemma toString10_safe_facts:
  assumes "\<bar>v\<bar> \<le> 2 ^ 53"
  shows "toString10 (Val v) \<noteq> []"
    and "trim (toString10 (Val v)) = toString10 (Val v)"
    and "parseInt (toString10 (Val v)) = Val v"
    and "CHR ''.'' \<notin> set (toString10 (Val v))"
proof -
  let ?ds = "digits_of 10 (nat \<bar>v\<bar>)"
  have ds: "?ds \<noteq> []" "\<forall>c\<in>set ?ds. isDigit c"
    by (simp_all add: digits_of_nonempty digits_of_10_digits)
  then have last: "\<not> isWhiteSpace (last ?ds)" and hd: "\<not> isWhiteSpace (hd ?ds)"
    by (auto dest!: isDigit_not_special(1))
  have minus: "\<not> isWhiteSpace CHR ''-''"
    by (simp add: isWhiteSpace_def)
  note eq = toString10_safe [OF assms]
  show "toString10 (Val v) \<noteq> []"
    unfolding eq using ds by simp
  show "trim (toString10 (Val v)) = toString10 (Val v)"
    unfolding eq using ds last hd minus by (intro trim_id) auto
  show "parseInt (toString10 (Val v)) = Val v"
    unfolding eq using ds
    by (auto simp add: parseInt_digits parseInt_minus_digits digits_value_digits_of)
  show "CHR ''.'' \<notin> set (toString10 (Val v))"
    unfolding eq using ds by (auto dest: isDigit_not_special(2))
qed

lemma trim_Nil: "trim [] = []"
  by (simp add: trim_def)

lemma normalize_octet_facts:
  assumes "safe_number (parseInt (trim seg))"
  shows "trim (normalize_octet seg) = normalize_octet seg"
    and "(normalize_octet seg = []) = (trim seg = [])"
    and "parseInt (normalize_octet seg) = parseInt (trim seg)"
    and "CHR ''.'' \<notin> set seg \<Longrightarrow> CHR ''.'' \<notin> set (normalize_octet seg)"
proof -
  have nodot: "CHR ''.'' \<notin> set (trim seg)" if "CHR ''.'' \<notin> set seg"
    using that set_trim [of seg] by blast
  show "trim (normalize_octet seg) = normalize_octet seg"
    using assms
    by (cases "parseInt (trim seg)")
      (simp_all add: normalize_octet_def Let_def trim_Nil trim_trim toString10_safe_facts del: toString10.simps)
  show "(normalize_octet seg = []) = (trim seg = [])"
    using assms
    by (cases "parseInt (trim seg)")
      (simp_all add: normalize_octet_def Let_def trim_Nil toString10_safe_facts del: toString10.simps)
  show "parseInt (normalize_octet seg) = parseInt (trim seg)"
    using assms
    by (cases "parseInt (trim seg)")
      (auto simp add: normalize_octet_def Let_def trim_Nil toString10_safe_facts simp del: toString10.simps)
  show "CHR ''.'' \<notin> set (normalize_octet seg)" if "CHR ''.'' \<notin> set seg"
    using assms nodot [OF that]
    by (cases "parseInt (trim seg)")
      (simp_all add: normalize_octet_def Let_def trim_Nil toString10_safe_facts del: toString10.simps)
qed

lemma octet_of_normalize:
  assumes "octet_of seg = Some n"
  shows "normalize_octet seg = digits_of 10 n" and "parseInt seg = Val (int n)" and "n \<le> 255"
proof -
  from assms obtain v where v: "parseInt (trim seg) = Val v" "0 \<le> v" "v \<le> 255" "n = nat v"
    by (auto simp add: octet_of_def split: number.splits if_splits)
  then have t: "trim seg \<noteq> []"
    by (auto simp add: parseInt_def)
  have "nat v < 10 ^ 21"
    using v by simp
  with v t show "normalize_octet seg = digits_of 10 n"
    using toString10_small [of "nat v"] by (simp add: normalize_octet_def Let_def del: toString10.simps)
  from v show "parseInt seg = Val (int n)"
    by (simp add: parseInt_trim)
  from v show "n \<le> 255" by simp
qed

lemma check_octets_normalized:
  assumes "list_all (\<lambda>seg. safe_number (parseInt (trim seg))) segs"
  shows "check_octets i (map normalize_octet segs) = first_failure (i + 1) segs"
  using assms
proof (induction segs arbitrary: i)
  case Nil
  then show ?case by simp
next
  case (Cons seg segs)
  then have safe: "safe_number (parseInt (trim seg))" by simp
  note n = normalize_octet_facts [OF safe]
  have "out_of_range (parseInt (trim seg)) = (octet_of seg = None)"
    by (cases "parseInt (trim seg)") (auto simp add: octet_of_def)
  with Cons show ?case
    by (simp add: n(1) n(2) n(3) Let_def)
qed

lemma first_failure_None:
  "(first_failure i segs = None) = list_all (\<lambda>seg. trim seg \<noteq> [] \<and> octet_of seg \<noteq> None) segs"
  by (induction segs arbitrary: i) auto

lemma validateIpAddress_refines:
  assumes "raw \<noteq> []" "safe_input raw"
  shows "validateIpAddress raw = parseAndValidate raw"
proof (cases "length (split_dot raw) = 4")
  case False
  with assms show ?thesis
    by (simp add: validateIpAddress_def normalizeIpAddress_def parseAndValidate_def)
next
  case True
  let ?segs = "split_dot raw"
  from assms have safe: "list_all (\<lambda>seg. safe_number (parseInt (trim seg))) ?segs"
    by (simp add: safe_input_def)
  have nodot: "\<forall>p\<in>set (map normalize_octet ?segs). CHR ''.'' \<notin> set p"
    using safe by (auto simp add: list_all_iff normalize_octet_facts(4) split_dot_no_dot)
  have norm: "normalizeIpAddress raw = join_dot (map normalize_octet ?segs)"
    using assms True by (simp add: normalizeIpAddress_def)
  have parts: "split_dot (join_dot (map normalize_octet ?segs)) = map normalize_octet ?segs"
    using nodot by (intro split_dot_join_dot) (simp_all add: split_dot_nonempty)
  have chk: "check_octets 0 (map normalize_octet ?segs) = first_failure 1 ?segs"
    using check_octets_normalized [OF safe, of 0] by simp
  have V: "validateIpAddress raw =
      (case first_failure 1 ?segs of
         Some e \<Rightarrow> Inl e
       | None \<Rightarrow> Inr (join_dot (map normalize_octet ?segs)))"
    using assms True by (simp add: validateIpAddress_def norm parts chk Let_def)
  have P: "parseAndValidate raw =
      (case first_failure 1 ?segs of
         Some e \<Rightarrow> Inl e
       | None \<Rightarrow> Inr (join_dot (map (\<lambda>seg. case octet_of seg of
                                              Some n \<Rightarrow> digits_of 10 n
                                            | None \<Rightarrow> []) ?segs)))"
    using True by (simp add: parseAndValidate_def Let_def)
  show ?thesis
  proof (cases "first_failure 1 ?segs")
    case (Some e)
    then show ?thesis
      by (simp add: V P)
  next
    case None
    then have "\<forall>seg\<in>set ?segs. octet_of seg \<noteq> None"
      by (simp add: first_failure_None list_all_iff)
    then have meq: "map normalize_octet ?segs
        = map (\<lambda>seg. case octet_of seg of Some n \<Rightarrow> digits_of 10 n | None \<Rightarrow> []) ?segs"
      by (intro map_cong refl) (auto simp add: octet_of_normalize(1))
    show ?thesis
      unfolding V P None by (simp only: option.case meq)
  qed
qed


lemma parseAndValidate_Inr:
  "(\<exists>n. parseAndValidate raw = Inr n)
   = (length (split_dot raw) = 4
      \<and> list_all (\<lambda>seg. trim seg \<noteq> [] \<and> octet_of seg \<noteq> None) (split_dot raw))"
proof (cases "first_failure 1 (split_dot raw)")
  case None
  with first_failure_None [of 1 "split_dot raw"] show ?thesis
    by (simp add: parseAndValidate_def Let_def)
next
  case (Some e)
  with first_failure_None [of 1 "split_dot raw"] show ?thesis
    by (simp add: parseAndValidate_def Let_def)
qed




lemma uint_of_nat_octet: "n \<le> 255 \<Longrightarrow> uint (of_nat n :: 8 word) = int n"
  by (simp add: unsigned_of_nat take_bit_nat_eq_self)

lemma unat_of_nat_octet: "n \<le> 255 \<Longrightarrow> unat (of_nat n :: 8 word) = n"
  by (simp add: unsigned_of_nat take_bit_nat_eq_self)

lemma validate_parses:
  assumes "safe_input raw" "validateIpAddress raw = Inr n"
  shows "\<exists>A. parses_as raw A \<and> n = canonical A"
proof -
  from assms(2) have ne: "raw \<noteq> []"
    by (auto simp add: validateIpAddress_def)
  with assms have pv: "parseAndValidate raw = Inr n"
    by (simp add: validateIpAddress_refines)
  then have len: "length (split_dot raw) = 4"
    and ok: "list_all (\<lambda>seg. trim seg \<noteq> [] \<and> octet_of seg \<noteq> None) (split_dot raw)"
    using parseAndValidate_Inr [of raw] by auto
  from len obtain s0 s1 s2 s3 where segs: "split_dot raw = [s0, s1, s2, s3]"
    by (auto simp add: numeral_eq_Suc length_Suc_conv)
  from ok segs obtain n0 n1 n2 n3 where o: "octet_of s0 = Some n0" "octet_of s1 = Some n1"
    "octet_of s2 = Some n2" "octet_of s3 = Some n3"
    by auto
  note f0 = octet_of_normalize [OF o(1)] and f1 = octet_of_normalize [OF o(2)]
    and f2 = octet_of_normalize [OF o(3)] and f3 = octet_of_normalize [OF o(4)]
  let ?A = "Address (of_nat n0) (of_nat n1) (of_nat n2) (of_nat n3)"
  have "parses_as raw ?A"
    using f0(2,3) f1(2,3) f2(2,3) f3(2,3) by (simp add: segs uint_of_nat_octet)
  moreover from pv have "n = canonical ?A"
    using f0(3) f1(3) f2(3) f3(3) first_failure_None [of 1 "split_dot raw"] ok
    by (simp add: parseAndValidate_def segs o unat_of_nat_octet)
  ultimately show ?thesis
    by blast
qed

subsection \<open>The subnet mask\<close>

lemma one_after_zero_True:
  "one_after_zero True (map (\<lambda>b. if b then CHR ''1'' else CHR ''0'') bs) = (True \<in> set bs)"
  by (induction bs) auto

lemma one_after_zero_False:
  "(\<not> one_after_zero False (map (\<lambda>b. if b then CHR ''1'' else CHR ''0'') bs))
   = (\<exists>k\<le>length bs. bs = replicate k True @ replicate (length bs - k) False)"
proof (induction bs)
  case Nil
  then show ?case by simp
next
  case (Cons b bs)
  show ?case
  proof (cases b)
    case True
    have "(\<exists>k\<le>length bs. bs = replicate k True @ replicate (length bs - k) False)
        = (\<exists>k\<le>Suc (length bs). True # bs = replicate k True @ replicate (Suc (length bs) - k) False)"
      (is "?L = ?R")
    proof
      assume ?L
      then obtain k where "k \<le> length bs" "bs = replicate k True @ replicate (length bs - k) False"
        by blast
      then have "Suc k \<le> Suc (length bs)
          \<and> True # bs = replicate (Suc k) True @ replicate (Suc (length bs) - Suc k) False"
        by simp
      then show ?R by blast
    next
      assume ?R
      then obtain k where k: "k \<le> Suc (length bs)"
        "True # bs = replicate k True @ replicate (Suc (length bs) - k) False"
        by blast
      then obtain k' where "k = Suc k'"
        by (cases k) auto
      with k have "k' \<le> length bs \<and> bs = replicate k' True @ replicate (length bs - k') False"
        by simp
      then show ?L by blast
    qed
    with True Cons show ?thesis by simp
  next
    case False
    have "(True \<notin> set bs)
        = (\<exists>k\<le>Suc (length bs). False # bs = replicate k True @ replicate (Suc (length bs) - k) False)"
      (is "?L = ?R")
    proof
      assume ?L
      then have "bs = replicate (length bs) False"
        by (intro replicate_eqI) auto
      then have "0 \<le> Suc (length bs)
          \<and> False # bs = replicate 0 True @ replicate (Suc (length bs) - 0) False"
        by simp
      then show ?R by blast
    next
      assume ?R
      then obtain k where k: "False # bs = replicate k True @ replicate (Suc (length bs) - k) False"
        by blast
      then have "k = 0"
        by (cases k) auto
      with k have "bs = replicate (length bs) False"
        by simp
      then have "set bs \<subseteq> {False}"
        by (metis set_replicate_conv_if subset_insertI subset_refl empty_subsetI)
      then show ?L by auto
    qed
    with False show ?thesis
      by (simp add: one_after_zero_True)
  qed
qed

lemma bits_prefix_mask:
  assumes "k \<le> 32"
  shows "(map (bit (w :: 32 word)) (rev [0..<32]) = replicate k True @ replicate (32 - k) False)
       = (w = prefix_mask k)"
proof
  assume eq: "map (bit w) (rev [0..<32]) = replicate k True @ replicate (32 - k) False"
  show "w = prefix_mask k"
  proof (rule bit_word_eqI)
    fix n assume "n < LENGTH(32)"
    then have n: "n < 32" by simp
    then have "map (bit w) (rev [0..<32]) ! (31 - n) = bit w n"
      by (simp add: rev_nth del: upt_Suc)
    moreover have "(replicate k True @ replicate (32 - k) False) ! (31 - n) = (31 - n < k)"
      using n assms by (simp add: nth_append)
    ultimately have "bit w n = (31 - n < k)"
      using eq by simp
    with n assms show "bit w n = bit (prefix_mask k) n"
      by (auto simp add: prefix_mask_def bit_simps)
  qed
next
  assume w: "w = prefix_mask k"
  show "map (bit w) (rev [0..<32]) = replicate k True @ replicate (32 - k) False"
  proof (rule nth_equalityI)
    show "length (map (bit w) (rev [0..<32])) = length (replicate k True @ replicate (32 - k) False)"
      using assms by simp
  next
    fix i assume "i < length (map (bit w) (rev [0..<32]))"
    then have i: "i < 32" by simp
    then have "map (bit w) (rev [0..<32]) ! i = bit w (31 - i)"
      by (simp add: rev_nth del: upt_Suc)
    also have "\<dots> = (i < k)"
      using i assms by (auto simp add: w prefix_mask_def bit_simps)
    also have "\<dots> = (replicate k True @ replicate (32 - k) False) ! i"
      using i assms by (simp add: nth_append)
    finally show "map (bit w) (rev [0..<32]) ! i = (replicate k True @ replicate (32 - k) False) ! i" .
  qed
qed

lemma binary8_segment:
  fixes w :: "32 word" and x :: "8 word"
  assumes "\<And>i. i < 8 \<Longrightarrow> bit w (i + k) = bit x i"
  shows "map (\<lambda>i. if bit w i then CHR ''1'' else CHR ''0'') (rev [k..<k + 8]) = binary8 x"
proof -
  have "[k..<k + 8] = map (\<lambda>i. i + k) [0..<8]"
    by (simp add: map_add_upt add.commute del: upt_Suc)
  then have "map (\<lambda>i. if bit w i then CHR ''1'' else CHR ''0'') (rev [k..<k + 8])
      = map ((\<lambda>i. if bit w i then CHR ''1'' else CHR ''0'') \<circ> (\<lambda>i. i + k)) (rev [0..<8])"
    by (simp only: rev_map map_map)
  also have "\<dots> = map (\<lambda>i. if bit x i then CHR ''1'' else CHR ''0'') (rev [0..<8])"
    by (rule map_cong) (simp_all add: assms del: upt_Suc)
  finally show ?thesis
    by (simp only: binary8_def)
qed

lemma bits32_toInt:
  "map (\<lambda>i. if bit (toInt (Address a b c d)) i then CHR ''1'' else CHR ''0'') (rev [0..<32])
   = binary8 a @ binary8 b @ binary8 c @ binary8 d"
proof -
  let ?P = "toInt (Address a b c d)"
  let ?f = "\<lambda>i. if bit ?P i then CHR ''1'' else CHR ''0''"
  have "[0..<32] = [0..<0 + 8] @ [8..<8 + 8] @ [16..<16 + 8] @ [24..<24 + 8]"
    by code_simp
  then have "map ?f (rev [0..<32])
      = map ?f (rev [24..<24 + 8]) @ map ?f (rev [16..<16 + 8])
        @ map ?f (rev [8..<8 + 8]) @ map ?f (rev [0..<0 + 8])"
    by (simp only: rev_append map_append append_assoc)
  also have "map ?f (rev [24..<24 + 8]) = binary8 a"
    by (rule binary8_segment) (simp add: bit_toInt del: toInt.simps)
  also have "map ?f (rev [16..<16 + 8]) = binary8 b"
    by (rule binary8_segment) (simp add: bit_toInt del: toInt.simps)
  also have "map ?f (rev [8..<8 + 8]) = binary8 c"
    by (rule binary8_segment) (simp add: bit_toInt del: toInt.simps)
  also have "map ?f (rev [0..<0 + 8]) = binary8 d"
    by (rule binary8_segment) (simp add: bit_toInt del: toInt.simps)
  finally show ?thesis .
qed

lemma one_after_zero_mask_binary:
  assumes "parses_as s A"
  shows "one_after_zero False (mask_binary s) = (\<not> mask_pattern (toInt A))"
proof (cases A)
  case (Address a b c d)
  let ?bs = "map (bit (toInt A)) (rev [0..<32])"
  from assms have "mask_binary s = binary8 a @ binary8 b @ binary8 c @ binary8 d"
    by (simp add: Address mask_binary_parses)
  also have "\<dots> = map (\<lambda>b. if b then CHR ''1'' else CHR ''0'') ?bs"
    unfolding Address bits32_toInt [symmetric] by (simp only: map_map o_def)
  finally have "(\<not> one_after_zero False (mask_binary s))
      = (\<exists>k\<le>length ?bs. ?bs = replicate k True @ replicate (length ?bs - k) False)"
    by (simp only: one_after_zero_False)
  also have "\<dots> = (\<exists>k\<le>32. ?bs = replicate k True @ replicate (32 - k) False)"
    by simp
  also have "\<dots> = (\<exists>k\<le>32. toInt A = prefix_mask k)"
    using bits_prefix_mask [of _ "toInt A"] by blast
  finally show ?thesis
    unfolding mask_pattern_def by blast
qed

lemma mask_pattern_iff:
  "mask_pattern w = (\<not> (\<exists>i j. i < j \<and> j < 32 \<and> bit w i \<and> \<not> bit w j))"
proof
  assume "mask_pattern w"
  then obtain k where "k \<le> 32" "w = prefix_mask k"
    by (auto simp add: mask_pattern_def)
  then show "\<not> (\<exists>i j. i < j \<and> j < 32 \<and> bit w i \<and> \<not> bit w j)"
    by (auto simp add: prefix_mask_def bit_simps)
next
  assume mono: "\<not> (\<exists>i j. i < j \<and> j < 32 \<and> bit w i \<and> \<not> bit w j)"
  show "mask_pattern w"
  proof (cases "\<exists>i. bit w i")
    case False
    then have "w = prefix_mask 0"
      by (intro bit_word_eqI) (auto simp add: prefix_mask_def bit_simps)
    then show ?thesis
      unfolding mask_pattern_def by blast
  next
    case True
    define m where "m = (LEAST i. bit w i)"
    from True have m: "bit w m"
      unfolding m_def by (auto intro: LeastI)
    then have m32: "m < 32"
      by (auto dest: bit_imp_le_length)
    have least: "m \<le> i" if "bit w i" for i
      unfolding m_def using that by (rule Least_le)
    have "w = prefix_mask (32 - m)"
    proof (rule bit_word_eqI)
      fix n assume "n < LENGTH(32)"
      then have n: "n < 32" by simp
      have "bit w n = (m \<le> n)"
      proof
        assume "bit w n" then show "m \<le> n" by (rule least)
      next
        assume "m \<le> n"
        show "bit w n"
        proof (cases "m = n")
          case True with m show ?thesis by simp
        next
          case False
          with \<open>m \<le> n\<close> have "m < n" by simp
          with mono m n show ?thesis by blast
        qed
      qed
      with n m32 show "bit w n = bit (prefix_mask (32 - m)) n"
        by (auto simp add: prefix_mask_def bit_simps)
    qed
    moreover have "32 - m \<le> 32" by simp
    ultimately show ?thesis
      unfolding mask_pattern_def by blast
  qed
qed

lemma validateSubnetMask_parses:
  assumes "parses_as raw A" "validateIpAddress raw = Inr n"
  shows "validateSubnetMask raw = (if mask_pattern (toInt A) then Inr () else Inl NonContiguousMask)"
  using assms by (simp add: validateSubnetMask_def one_after_zero_mask_binary)

text \<open>
  C5.  \<open>validateSubnetMask\<close> first validates the string as an address and passes every
  error of that validation on.  For a validated string, which denotes an address, it
  succeeds exactly when the 32 bits of the mask are ones followed by zeros, that is when
  no 1-bit follows a 0-bit, and fails with \<open>NonContiguousMask\<close> otherwise.
  255.255.255.0 is accepted (24 ones) and 255.0.255.0 is refused.
\<close>

theorem validateSubnetMask_contiguous:
  "(validateIpAddress raw = Inl e \<longrightarrow> validateSubnetMask raw = Inl e)
   \<and> (parses_as raw A \<and> validateIpAddress raw = Inr n \<longrightarrow>
        validateSubnetMask raw
          = (if mask_pattern (toInt A) then Inr () else Inl NonContiguousMask))
   \<and> (safe_input raw \<and> validateIpAddress raw = Inr n \<longrightarrow>
        (\<exists>B. parses_as raw B \<and> n = canonical B
           \<and> validateSubnetMask raw
                = (if mask_pattern (toInt B) then Inr () else Inl NonContiguousMask)))
   \<and> mask_pattern w = (\<not> (\<exists>i j. i < j \<and> j < 32 \<and> bit w i \<and> \<not> bit w j))
   \<and> validateSubnetMask ''255.255.255.0'' = Inr ()
   \<and> toInt (Address 255 255 255 0) = prefix_mask 24
   \<and> popcount (toInt (Address 255 255 255 0)) = 24
   \<and> validateSubnetMask ''255.0.255.0'' = Inl NonContiguousMask"
proof -
  have 1: "validateSubnetMask raw = Inl e" if "validateIpAddress raw = Inl e"
    using that by (simp add: validateSubnetMask_def)
  have 2: "validateSubnetMask raw
          = (if mask_pattern (toInt A) then Inr () else Inl NonContiguousMask)"
    if "parses_as raw A \<and> validateIpAddress raw = Inr n"
    using that by (simp add: validateSubnetMask_parses)
  have 3: "\<exists>B. parses_as raw B \<and> n = canonical B
           \<and> validateSubnetMask raw
                = (if mask_pattern (toInt B) then Inr () else Inl NonContiguousMask)"
    if h: "safe_input raw \<and> validateIpAddress raw = Inr n"
  proof -
    from h obtain B where "parses_as raw B" "n = canonical B"
      using validate_parses [of raw n] by blast
    with h validateSubnetMask_parses [of raw B n] show ?thesis
      by blast
  qed
  have e: "validateSubnetMask ''255.255.255.0'' = Inr ()"
    "toInt (Address 255 255 255 0) = prefix_mask 24"
    "popcount (toInt (Address 255 255 255 0)) = 24"
    "validateSubnetMask ''255.0.255.0'' = Inl NonContiguousMask"
    by code_simp+
  show ?thesis
    by (intro conjI impI 1 2 3 e mask_pattern_iff; (elim conjE)?; assumption)
qed

theorem validateSubnetMask_contiguous_witness:
  "validateIpAddress ''255.255.0'' = Inl MissingOctets
   \<and> validateSubnetMask ''255.255.0'' = Inl MissingOctets
   \<and> parses_as '' 255.255.240.00'' (Address 255 255 240 0)
   \<and> safe_input '' 255.255.240.00''
   \<and> validateIpAddress '' 255.255.240.00'' = Inr ''255.255.240.0''
   \<and> mask_pattern (toInt (Address 255 255 240 0))
   \<and> validateSubnetMask '' 255.255.240.00'' = Inr ()
   \<and> parses_as ''255.255.255.1'' (Address 255 255 255 1)
   \<and> validateIpAddress ''255.255.255.1'' = Inr ''255.255.255.1''
   \<and> \<not> mask_pattern (toInt (Address 255 255 255 1))
   \<and> validateSubnetMask ''255.255.255.1'' = Inl NonContiguousMask"
proof -
  have a: "validateIpAddress ''255.255.0'' = Inl MissingOctets"
    by code_simp
  have b: "parses_as '' 255.255.240.00'' (Address 255 255 240 0)"
    "safe_input '' 255.255.240.00''"
    "validateIpAddress '' 255.255.240.00'' = Inr ''255.255.240.0''"
    by code_simp+
  have "toInt (Address 255 255 240 0) = prefix_mask 20"
    by code_simp
  then have m: "mask_pattern (toInt (Address 255 255 240 0))"
    unfolding mask_pattern_def by (intro exI [of _ 20]) simp
  have c: "parses_as ''255.255.255.1'' (Address 255 255 255 1)"
    "validateIpAddress ''255.255.255.1'' = Inr ''255.255.255.1''"
    by code_simp+
  have "(0::nat) < 1 \<and> (1::nat) < 32 \<and> bit (toInt (Address 255 255 255 1)) 0
      \<and> \<not> bit (toInt (Address 255 255 255 1)) 1"
    by (simp add: bit_simps)
  then have nm: "\<not> mask_pattern (toInt (Address 255 255 255 1))"
    unfolding mask_pattern_iff by blast
  note T1 = validateSubnetMask_contiguous [of "''255.255.0''" MissingOctets "Address 0 0 0 0" "[]" 0,
      THEN conjunct1, THEN mp, OF a]
  note T2 = validateSubnetMask_contiguous [of "'' 255.255.240.00''" Required "Address 255 255 240 0"
      "''255.255.240.0''" 0, THEN conjunct2, THEN conjunct1, THEN mp, OF conjI [OF b(1) b(3)]]
  note T3 = validateSubnetMask_contiguous [of "''255.255.255.1''" Required "Address 255 255 255 1"
      "''255.255.255.1''" 0, THEN conjunct2, THEN conjunct1, THEN mp, OF conjI [OF c(1) c(2)]]
  from T2 m have T2': "validateSubnetMask '' 255.255.240.00'' = Inr ()"
    by (simp only: if_True)
  from T3 nm have T3': "validateSubnetMask ''255.255.255.1'' = Inl NonContiguousMask"
    by (simp only: if_False)
  from a T1 b m T2' c nm T3' show ?thesis
    by (intro conjI)
qed

section \<open>The quiz session\<close>

subsection \<open>\<open>handleSubmit\<close> by cases\<close>

lemma join_dot_4_nonempty: "length ps = 4 \<Longrightarrow> join_dot ps \<noteq> []"
  by (auto simp add: numeral_eq_Suc length_Suc_conv)

lemma validateIpAddress_nonempty: "validateIpAddress raw = Inr n \<Longrightarrow> n \<noteq> []"
  by (auto simp add: validateIpAddress_def normalizeIpAddress_def Let_def join_dot_4_nonempty
      split: if_splits option.splits)

lemma or_else_Some: "n \<noteq> [] \<Longrightarrow> or_else (Some n) raw = n"
  by (simp add: or_else_def)

lemma handleSubmit_invalid:
  assumes "validateIpAddress (userInput s) = Inl e"
  shows "score (handleSubmit s) = score s"
    and "correctAnswers (handleSubmit s) = correctAnswers s"
    and "totalAttempts (handleSubmit s) = totalAttempts s + 1"
    and "gameCompleted (handleSubmit s) = gameCompleted s"
    and "waitingForContinue (handleSubmit s) = waitingForContinue s"
    and "userInput (handleSubmit s) = userInput s"
    and "networkAddress (handleSubmit s) = networkAddress s"
    and "subnetMask (handleSubmit s) = subnetMask s"
    and "errorMessage (handleSubmit s) = error_message e"
    and "\<exists>r. submissions (handleSubmit s)
           = submissions s @ [\<lparr> response = r, attemptNumber = totalAttempts s + 1 \<rparr>]
         \<and> currentResponse (handleSubmit s) = Some r
         \<and> \<not> isCorrect r \<and> message r = ''Validation error: '' @ error_message e
         \<and> currentScore r = score s \<and> totalQuestionsAttempted r = totalAttempts s + 1"
  using assms
  by (simp_all add: handleSubmit_def push_submission_def Let_def generateResponse_def)

lemma handleSubmit_wrong:
  assumes "validateIpAddress (userInput s) = Inr n"
    and "\<not> isIpInNetwork n (networkAddress s) (subnetMask s)"
  shows "score (handleSubmit s) = score s"
    and "correctAnswers (handleSubmit s) = correctAnswers s"
    and "totalAttempts (handleSubmit s) = totalAttempts s + 1"
    and "gameCompleted (handleSubmit s) = gameCompleted s"
    and "waitingForContinue (handleSubmit s) = waitingForContinue s"
    and "userInput (handleSubmit s) = []"
    and "networkAddress (handleSubmit s) = networkAddress s"
    and "subnetMask (handleSubmit s) = subnetMask s"
    and "\<exists>r. submissions (handleSubmit s)
           = submissions s @ [\<lparr> response = r, attemptNumber = totalAttempts s + 1 \<rparr>]
         \<and> currentResponse (handleSubmit s) = Some r
         \<and> \<not> isCorrect r
         \<and> message r = explainNetworkMismatch n (networkAddress s) (subnetMask s)
         \<and> currentScore r = score s"
  using assms validateIpAddress_nonempty [OF assms(1)]
  by (simp_all add: handleSubmit_def push_submission_def Let_def or_else_Some generateResponse_def)

lemma handleSubmit_right:
  assumes "validateIpAddress (userInput s) = Inr n"
    and "isIpInNetwork n (networkAddress s) (subnetMask s)"
  shows "score (handleSubmit s) = score s + 1"
    and "correctAnswers (handleSubmit s) = correctAnswers s + 1"
    and "totalAttempts (handleSubmit s) = totalAttempts s + 1"
    and "gameCompleted (handleSubmit s) = (gameCompleted s \<or> correctAnswers s + 1 \<ge> 5)"
    and "waitingForContinue (handleSubmit s) = (waitingForContinue s \<or> correctAnswers s + 1 < 5)"
    and "userInput (handleSubmit s) = userInput s"
    and "networkAddress (handleSubmit s) = networkAddress s"
    and "subnetMask (handleSubmit s) = subnetMask s"
    and "\<exists>r. submissions (handleSubmit s)
           = submissions s @ [\<lparr> response = r, attemptNumber = totalAttempts s + 1 \<rparr>]
         \<and> isCorrect r \<and> currentScore r = score s + 1"
  using assms validateIpAddress_nonempty [OF assms(1)]
  by (auto simp add: handleSubmit_def push_submission_def Let_def or_else_Some generateResponse_def)

lemma submit_total: "totalAttempts (submit raw s) = totalAttempts s + 1"
proof (cases "validateIpAddress raw")
  case (Inl e)
  then show ?thesis
    using handleSubmit_invalid(3) [of "s\<lparr>userInput := raw\<rparr>" e] by (simp add: submit_def)
next
  case (Inr n)
  then show ?thesis
    using handleSubmit_wrong(3) [of "s\<lparr>userInput := raw\<rparr>" n]
      handleSubmit_right(3) [of "s\<lparr>userInput := raw\<rparr>" n]
    by (cases "isIpInNetwork n (networkAddress s) (subnetMask s)") (simp_all add: submit_def)
qed

lemma submit_invalid:
  assumes "validateIpAddress raw = Inl e"
  shows "(\<exists>r. submissions (submit raw s)
             = submissions s @ [\<lparr> response = r, attemptNumber = totalAttempts s + 1 \<rparr>]
           \<and> \<not> isCorrect r \<and> message r = ''Validation error: '' @ error_message e)
        \<and> score (submit raw s) = score s \<and> correctAnswers (submit raw s) = correctAnswers s
        \<and> networkAddress (submit raw s) = networkAddress s
        \<and> subnetMask (submit raw s) = subnetMask s
        \<and> userInput (submit raw s) = raw"
proof -
  from assms have v: "validateIpAddress (userInput (s\<lparr>userInput := raw\<rparr>)) = Inl e"
    by simp
  note h = handleSubmit_invalid [OF v]
  from h(10) have "\<exists>r. submissions (submit raw s)
             = submissions s @ [\<lparr> response = r, attemptNumber = totalAttempts s + 1 \<rparr>]
           \<and> \<not> isCorrect r \<and> message r = ''Validation error: '' @ error_message e"
    unfolding submit_def by auto
  with h(1,2,6,7,8) show ?thesis
    by (simp add: submit_def)
qed

lemma submit_userInput:
  "userInput (submit raw s)
   = (if (\<exists>n. validateIpAddress raw = Inr n) \<and> \<not> judged_correct raw s then [] else raw)"
proof (cases "validateIpAddress raw")
  case (Inl e)
  then show ?thesis
    using handleSubmit_invalid(6) [of "s\<lparr>userInput := raw\<rparr>" e] by (simp add: submit_def)
next
  case (Inr n)
  then show ?thesis
    using handleSubmit_wrong(6) [of "s\<lparr>userInput := raw\<rparr>" n]
      handleSubmit_right(6) [of "s\<lparr>userInput := raw\<rparr>" n]
    by (cases "isIpInNetwork n (networkAddress s) (subnetMask s)")
      (simp_all add: submit_def judged_correct_def)
qed

text \<open>
  C6.  \<open>submit raw\<close> adds exactly 1 to \<open>totalAttempts\<close> in every state and for every
  input.  When validation fails it appends one submission that is not correct and carries
  the validation error as its message, and leaves \<open>score\<close>, \<open>correctAnswers\<close>, the network
  address, the mask and the text box as they were; the text box is emptied exactly on a
  validated answer that is judged incorrect.  For 999.1.1.1 the message is the
  out-of-range error of octet 1.
\<close>

theorem submit_counts_every_attempt:
  "totalAttempts (submit raw s) = totalAttempts s + 1
   \<and> (validateIpAddress raw = Inl e \<longrightarrow>
        (\<exists>r. submissions (submit raw s)
             = submissions s @ [\<lparr> response = r, attemptNumber = totalAttempts s + 1 \<rparr>]
           \<and> \<not> isCorrect r \<and> message r = ''Validation error: '' @ error_message e)
        \<and> score (submit raw s) = score s \<and> correctAnswers (submit raw s) = correctAnswers s
        \<and> networkAddress (submit raw s) = networkAddress s
        \<and> subnetMask (submit raw s) = subnetMask s
        \<and> userInput (submit raw s) = raw)
   \<and> userInput (submit raw s)
       = (if (\<exists>n. validateIpAddress raw = Inr n) \<and> \<not> judged_correct raw s then [] else raw)
   \<and> totalAttempts (submit ''999.1.1.1'' s) = totalAttempts s + 1
   \<and> score (submit ''999.1.1.1'' s) = score s
   \<and> (\<exists>r. submissions (submit ''999.1.1.1'' s)
             = submissions s @ [\<lparr> response = r, attemptNumber = totalAttempts s + 1 \<rparr>]
           \<and> \<not> isCorrect r
           \<and> message r = ''Validation error: Octet 1 must be a number between 0 and 255'')
   \<and> userInput (submit ''999.1.1.1'' s) = ''999.1.1.1''"
proof -
  have v: "validateIpAddress ''999.1.1.1'' = Inl (OutOfRange 1)"
    by code_simp
  have m: "''Validation error: '' @ error_message (OutOfRange 1)
      = ''Validation error: Octet 1 must be a number between 0 and 255''"
    by code_simp
  note ex = submit_invalid [OF v, of s, unfolded m]
  from ex have ex1: "score (submit ''999.1.1.1'' s) = score s"
    and ex2: "\<exists>r. submissions (submit ''999.1.1.1'' s)
             = submissions s @ [\<lparr> response = r, attemptNumber = totalAttempts s + 1 \<rparr>]
           \<and> \<not> isCorrect r
           \<and> message r = ''Validation error: Octet 1 must be a number between 0 and 255''"
    and ex3: "userInput (submit ''999.1.1.1'' s) = ''999.1.1.1''"
    by (simp_all only:)
  show ?thesis
    by (intro conjI impI submit_total submit_userInput ex1 ex2 ex3; (drule submit_invalid [of _ _ s])?;
        (elim conjE)?; assumption?)
qed

theorem submit_counts_every_attempt_witness:
  "validateIpAddress ''1.2.3'' = Inl MissingOctets
   \<and> score (submit ''1.2.3'' initial_state) = 0
   \<and> totalAttempts (submit ''1.2.3'' initial_state) = 1
   \<and> userInput (submit ''1.2.3'' initial_state) = ''1.2.3''"
proof -
  have v: "validateIpAddress ''1.2.3'' = Inl MissingOctets"
    by code_simp
  note T = submit_counts_every_attempt [of "''1.2.3''" initial_state MissingOctets]
  from T have 1: "totalAttempts (submit ''1.2.3'' initial_state) = totalAttempts initial_state + 1"
    by (rule conjunct1)
  from T [THEN conjunct2, THEN conjunct1, THEN mp, OF v]
  have 2: "score (submit ''1.2.3'' initial_state) = score initial_state"
    and 3: "userInput (submit ''1.2.3'' initial_state) = ''1.2.3''"
    by (simp_all only:)
  from v 1 2 3 show ?thesis
    by (simp add: initial_state_def)
qed

subsection \<open>Counters\<close>

lemma initGame_fields:
  "score (initGame d s) = score s"
  "correctAnswers (initGame d s) = correctAnswers s"
  "totalAttempts (initGame d s) = totalAttempts s"
  "gameCompleted (initGame d s) = gameCompleted s"
  "submissions (initGame d s) = submissions s"
  "waitingForContinue (initGame d s) = False"
  "userInput (initGame d s) = []"
  "currentResponse (initGame d s) = None"
  "errorMessage (initGame d s) = []"
  by (cases d; simp add: Let_def)+

lemma fresh_fields:
  "score (fresh d) = 0" "correctAnswers (fresh d) = 0" "totalAttempts (fresh d) = 0"
  "gameCompleted (fresh d) = False" "submissions (fresh d) = []"
  "waitingForContinue (fresh d) = False"
  by (simp_all add: fresh_def initGame_fields initial_state_def)

lemma handleSubmit_judged:
  assumes "judged_correct (userInput s) s"
  shows "score (handleSubmit s) = score s + 1"
    and "correctAnswers (handleSubmit s) = correctAnswers s + 1"
    and "totalAttempts (handleSubmit s) = totalAttempts s + 1"
    and "gameCompleted (handleSubmit s) = (gameCompleted s \<or> correctAnswers s + 1 \<ge> 5)"
    and "waitingForContinue (handleSubmit s) = (waitingForContinue s \<or> correctAnswers s + 1 < 5)"
proof -
  from assms obtain n where n: "validateIpAddress (userInput s) = Inr n"
    "isIpInNetwork n (networkAddress s) (subnetMask s)"
    by (auto simp add: judged_correct_def split: sum.splits)
  note h = handleSubmit_right [OF n]
  show "score (handleSubmit s) = score s + 1"
    and "correctAnswers (handleSubmit s) = correctAnswers s + 1"
    and "totalAttempts (handleSubmit s) = totalAttempts s + 1"
    and "gameCompleted (handleSubmit s) = (gameCompleted s \<or> correctAnswers s + 1 \<ge> 5)"
    and "waitingForContinue (handleSubmit s) = (waitingForContinue s \<or> correctAnswers s + 1 < 5)"
    by (rule h)+
qed

lemma handleSubmit_not_judged:
  assumes "\<not> judged_correct (userInput s) s"
  shows "score (handleSubmit s) = score s"
    and "correctAnswers (handleSubmit s) = correctAnswers s"
    and "gameCompleted (handleSubmit s) = gameCompleted s"
    and "waitingForContinue (handleSubmit s) = waitingForContinue s"
proof -
  have "score (handleSubmit s) = score s \<and> correctAnswers (handleSubmit s) = correctAnswers s
      \<and> gameCompleted (handleSubmit s) = gameCompleted s
      \<and> waitingForContinue (handleSubmit s) = waitingForContinue s"
  proof (cases "validateIpAddress (userInput s)")
    case (Inl e)
    from handleSubmit_invalid(1,2,4,5) [OF Inl] show ?thesis
      by (intro conjI)
  next
    case (Inr n)
    with assms have "\<not> isIpInNetwork n (networkAddress s) (subnetMask s)"
      by (simp add: judged_correct_def)
    from handleSubmit_wrong(1,2,4,5) [OF Inr this] show ?thesis
      by (intro conjI)
  qed
  then show "score (handleSubmit s) = score s"
    and "correctAnswers (handleSubmit s) = correctAnswers s"
    and "gameCompleted (handleSubmit s) = gameCompleted s"
    and "waitingForContinue (handleSubmit s) = waitingForContinue s"
    by (simp_all only:)
qed

lemma handleSubmit_counters:
  "score (handleSubmit s) = score s + (if judged_correct (userInput s) s then 1 else 0)"
  "correctAnswers (handleSubmit s)
     = correctAnswers s + (if judged_correct (userInput s) s then 1 else 0)"
  using handleSubmit_judged(1,2) [of s] handleSubmit_not_judged(1,2) [of s]
  by (cases "judged_correct (userInput s) s"; simp)+

lemma continue_fields:
  "score (continueToNextQuestion d s) = score s"
  "correctAnswers (continueToNextQuestion d s) = correctAnswers s"
  "totalAttempts (continueToNextQuestion d s) = totalAttempts s"
  "gameCompleted (continueToNextQuestion d s) = gameCompleted s"
  "submissions (continueToNextQuestion d s) = submissions s"
  by (simp_all add: continueToNextQuestion_def initGame_fields)

lemma handleReset_fields:
  "score (handleReset d s) = 0" "correctAnswers (handleReset d s) = 0"
  "totalAttempts (handleReset d s) = 0" "gameCompleted (handleReset d s) = False"
  "submissions (handleReset d s) = []" "waitingForContinue (handleReset d s) = False"
  by (simp_all add: initGame_fields)

lemma handler_score:
  assumes "score s = correctAnswers s"
  shows "score (handler e s) = correctAnswers (handler e s)"
proof (cases e)
  case (TypeInput t)
  with assms show ?thesis by simp
next
  case (KeyPress key)
  with assms show ?thesis
    by (simp add: handleKeyPress_def handleSubmit_counters)
next
  case ClickSubmit
  with assms show ?thesis
    by (simp add: handleSubmit_counters)
next
  case (ClickContinue d)
  with assms show ?thesis
    by (simp add: continue_fields)
next
  case (ClickReset d)
  then show ?thesis
    by (simp only: handler.simps handleReset_fields)
qed

lemma ui_step_score:
  "score s = correctAnswers s \<Longrightarrow> score (ui_step e s) = correctAnswers (ui_step e s)"
  by (simp add: ui_step_def handler_score)

lemma run_handlers_score:
  "score s = correctAnswers s \<Longrightarrow> score (run_handlers es s) = correctAnswers (run_handlers es s)"
  by (induction es arbitrary: s) (simp_all add: handler_score)

lemma run_ui_score:
  "score s = correctAnswers s \<Longrightarrow> score (run_ui es s) = correctAnswers (run_ui es s)"
  by (induction es arbitrary: s) (simp_all add: ui_step_score)

text \<open>
  C10.  In every state reached from a fresh session, by any sequence of handler calls and
  by any sequence of events of the page, \<open>score = correctAnswers\<close>.  Both start at 0,
  \<open>handleSubmit\<close> adds 1 to both exactly when the answer is judged correct,
  \<open>continueToNextQuestion\<close> changes neither and \<open>handleReset\<close> sets both to 0.
\<close>

theorem score_equals_correctAnswers:
  "score (run_handlers es (fresh d)) = correctAnswers (run_handlers es (fresh d))
   \<and> score (run_ui es (fresh d)) = correctAnswers (run_ui es (fresh d))
   \<and> score (fresh d) = 0 \<and> correctAnswers (fresh d) = 0
   \<and> score (handleSubmit s) = score s + (if judged_correct (userInput s) s then 1 else 0)
   \<and> correctAnswers (handleSubmit s)
       = correctAnswers s + (if judged_correct (userInput s) s then 1 else 0)
   \<and> score (continueToNextQuestion d' s) = score s
   \<and> correctAnswers (continueToNextQuestion d' s) = correctAnswers s
   \<and> score (handleReset d' s) = 0 \<and> correctAnswers (handleReset d' s) = 0"
proof -
  have "score (fresh d) = correctAnswers (fresh d)"
    by (simp add: fresh_fields)
  then have "score (run_handlers es (fresh d)) = correctAnswers (run_handlers es (fresh d))"
    and "score (run_ui es (fresh d)) = correctAnswers (run_ui es (fresh d))"
    by (rule run_handlers_score, rule run_ui_score)
  then show ?thesis
    by (intro conjI fresh_fields handleSubmit_counters continue_fields handleReset_fields)
qed

subsection \<open>Five correct answers and the completed game\<close>

lemma judged_correct_cong:
  "networkAddress s' = networkAddress s \<Longrightarrow> subnetMask s' = subnetMask s
   \<Longrightarrow> judged_correct raw s' = judged_correct raw s"
  by (simp add: judged_correct_def split: sum.splits)

lemma handleSubmit_network:
  "networkAddress (handleSubmit s) = networkAddress s" "subnetMask (handleSubmit s) = subnetMask s"
proof -
  have "networkAddress (handleSubmit s) = networkAddress s \<and> subnetMask (handleSubmit s) = subnetMask s"
  proof (cases "validateIpAddress (userInput s)")
    case (Inl e)
    from handleSubmit_invalid(7,8) [OF Inl] show ?thesis by (intro conjI)
  next
    case (Inr n)
    show ?thesis
    proof (cases "isIpInNetwork n (networkAddress s) (subnetMask s)")
      case True
      from handleSubmit_right(7,8) [OF Inr True] show ?thesis by (intro conjI)
    next
      case False
      from handleSubmit_wrong(7,8) [OF Inr False] show ?thesis by (intro conjI)
    qed
  qed
  then show "networkAddress (handleSubmit s) = networkAddress s"
    and "subnetMask (handleSubmit s) = subnetMask s"
    by (simp_all only:)
qed

lemma enter_open:
  assumes "\<not> gameCompleted s" "\<not> waitingForContinue s"
  shows "enter raw s = handleSubmit (s\<lparr>userInput := raw\<rparr>)"
  using assms by (simp add: enter_def ui_step_def handleKeyPress_def)

lemma enter_correct:
  assumes "\<not> gameCompleted s" "\<not> waitingForContinue s" "judged_correct raw s"
  shows "score (enter raw s) = score s + 1"
    and "correctAnswers (enter raw s) = correctAnswers s + 1"
    and "totalAttempts (enter raw s) = totalAttempts s + 1"
    and "gameCompleted (enter raw s) = (correctAnswers s + 1 \<ge> 5)"
    and "waitingForContinue (enter raw s) = (correctAnswers s + 1 < 5)"
proof -
  from assms(3) have j: "judged_correct (userInput (s\<lparr>userInput := raw\<rparr>)) (s\<lparr>userInput := raw\<rparr>)"
    by (simp add: judged_correct_def split: sum.splits)
  note h = handleSubmit_judged [OF j]
  from h assms(1,2) show "score (enter raw s) = score s + 1"
    and "correctAnswers (enter raw s) = correctAnswers s + 1"
    and "totalAttempts (enter raw s) = totalAttempts s + 1"
    and "gameCompleted (enter raw s) = (correctAnswers s + 1 \<ge> 5)"
    and "waitingForContinue (enter raw s) = (correctAnswers s + 1 < 5)"
    by (simp_all add: enter_open [OF assms(1,2)])
qed

lemma click_continue_waiting:
  assumes "\<not> gameCompleted s" "waitingForContinue s" "correctAnswers s < 5"
  shows "ui_step (ClickContinue d) s = initGame d s"
  using assms by (simp add: ui_step_def continueToNextQuestion_def)

lemma play_all_correct:
  assumes "\<not> gameCompleted s" "waitingForContinue s" "correctAnswers s < 5"
    and "correctAnswers s + length rest \<le> 5" "all_correct rest s"
  shows "correctAnswers (play rest s) = correctAnswers s + length rest
       \<and> score (play rest s) = score s + length rest
       \<and> totalAttempts (play rest s) = totalAttempts s + length rest
       \<and> gameCompleted (play rest s) = (correctAnswers s + length rest \<ge> 5)"
  using assms
proof (induction rest arbitrary: s)
  case Nil
  then show ?case by simp
next
  case (Cons x rest)
  obtain d raw where x: "x = (d, raw)" by (cases x)
  let ?s1 = "ui_step (ClickContinue d) s"
  let ?s2 = "enter raw ?s1"
  have s1: "?s1 = initGame d s"
    using Cons.prems(1,2,3) by (rule click_continue_waiting)
  have f1: "\<not> gameCompleted ?s1" "\<not> waitingForContinue ?s1"
    "correctAnswers ?s1 = correctAnswers s" "score ?s1 = score s" "totalAttempts ?s1 = totalAttempts s"
    using Cons.prems(1) by (simp_all add: s1 initGame_fields)
  from Cons.prems(5) have j: "judged_correct raw ?s1" and ac: "all_correct rest ?s2"
    by (simp_all add: x)
  note e = enter_correct [OF f1(1,2) j]
  show ?case
  proof (cases "correctAnswers s + 1 \<ge> 5")
    case True
    with Cons.prems(4) have "length rest = 0" by (simp del: length_0_conv)
    then have "rest = []" by simp
    with True e f1 show ?thesis
      by (simp add: x)
  next
    case False
    with e f1 have p: "\<not> gameCompleted ?s2" "waitingForContinue ?s2" "correctAnswers ?s2 < 5"
      "correctAnswers ?s2 + length rest \<le> 5"
      using Cons.prems(4) by simp_all
    from Cons.IH [OF p ac] e f1 show ?thesis
      by (simp add: x)
  qed
qed

lemma completed_ui_step:
  assumes "gameCompleted s" "\<not> is_reset e"
  shows "ui_step e s = s"
  using assms by (cases e) (simp_all add: ui_step_def)

lemma completed_run_ui:
  "gameCompleted s \<Longrightarrow> \<forall>e\<in>set es. \<not> is_reset e \<Longrightarrow> run_ui es s = s"
  by (induction es) (simp_all add: completed_ui_step)

lemma Rep_random_0: "Rep_random (Abs_random 0) = 0"
  by (simp add: Abs_random_inverse)

lemma Rep_random_half: "Rep_random (Abs_random (1 / 2)) = 1 / 2"
  by (simp add: Abs_random_inverse)

lemma mask_draw_0: "generateRandomSubnetMask (Abs_random 0) = ''255.255.255.0''"
  by (simp add: generateRandomSubnetMask_def commonMasks_def Rep_random_0)

lemma mask_draw_half: "generateRandomSubnetMask (Abs_random (1 / 2)) = ''255.255.255.192''"
  by (simp add: generateRandomSubnetMask_def commonMasks_def Rep_random_half)

lemma toString10_0: "toString10 (Val 0) = ''0''"
  by code_simp

lemma initGame_zero:
  "networkAddress (initGame (Abs_random 0, Abs_random 0, Abs_random 0, Abs_random 0) s) = ''0.0.0.0''"
  "subnetMask (initGame (Abs_random 0, Abs_random 0, Abs_random 0, Abs_random 0) s) = ''255.255.255.0''"
  by (simp_all add: Let_def mask_draw_0 Rep_random_0 toString10_0 del: toString10.simps)

lemma enter_network:
  "networkAddress (enter raw s) = networkAddress s" "subnetMask (enter raw s) = subnetMask s"
  by (simp_all add: enter_def ui_step_def handleKeyPress_def handleSubmit_network)

lemma click_continue_network:
  assumes "networkAddress (initGame d s) = networkAddress s" "subnetMask (initGame d s) = subnetMask s"
  shows "networkAddress (ui_step (ClickContinue d) s) = networkAddress s"
    and "subnetMask (ui_step (ClickContinue d) s) = subnetMask s"
  using assms by (simp_all add: ui_step_def continueToNextQuestion_def)

lemma submit_judged:
  assumes "judged_correct raw s"
  shows "score (submit raw s) = score s + 1"
    and "correctAnswers (submit raw s) = correctAnswers s + 1"
    and "gameCompleted (submit raw s) = (gameCompleted s \<or> correctAnswers s + 1 \<ge> 5)"
proof -
  from assms have j: "judged_correct (userInput (s\<lparr>userInput := raw\<rparr>)) (s\<lparr>userInput := raw\<rparr>)"
    by (simp add: judged_correct_def split: sum.splits)
  note h = handleSubmit_judged [OF j]
  from h show "score (submit raw s) = score s + 1"
    and "correctAnswers (submit raw s) = correctAnswers s + 1"
    and "gameCompleted (submit raw s) = (gameCompleted s \<or> correctAnswers s + 1 \<ge> 5)"
    by (simp_all add: submit_def)
qed

lemma submit_counters:
  "score (submit raw s) = score s + (if judged_correct raw s then 1 else 0)"
  "correctAnswers (submit raw s) = correctAnswers s + (if judged_correct raw s then 1 else 0)"
proof -
  have j: "judged_correct (userInput (s\<lparr>userInput := raw\<rparr>)) (s\<lparr>userInput := raw\<rparr>)
      = judged_correct raw s"
    by (simp add: judged_correct_def split: sum.splits)
  from handleSubmit_counters [of "s\<lparr>userInput := raw\<rparr>"]
  show "score (submit raw s) = score s + (if judged_correct raw s then 1 else 0)"
    and "correctAnswers (submit raw s) = correctAnswers s + (if judged_correct raw s then 1 else 0)"
    by (simp_all only: j submit_def) simp_all
qed

lemma submit_completed: "gameCompleted s \<Longrightarrow> gameCompleted (submit raw s)"
  using handleSubmit_judged(4) [of "s\<lparr>userInput := raw\<rparr>"]
    handleSubmit_not_judged(3) [of "s\<lparr>userInput := raw\<rparr>"]
  by (cases "judged_correct (userInput (s\<lparr>userInput := raw\<rparr>)) (s\<lparr>userInput := raw\<rparr>)")
    (simp_all add: submit_def)

lemma submit_history:
  "\<exists>r. submissions (submit raw s)
        = submissions s @ [\<lparr> response = r, attemptNumber = totalAttempts s + 1 \<rparr>]"
proof (cases "validateIpAddress raw")
  case (Inl e)
  then show ?thesis
    using handleSubmit_invalid(10) [of "s\<lparr>userInput := raw\<rparr>" e] by (auto simp add: submit_def)
next
  case (Inr n)
  then show ?thesis
    using handleSubmit_wrong(9) [of "s\<lparr>userInput := raw\<rparr>" n]
      handleSubmit_right(9) [of "s\<lparr>userInput := raw\<rparr>" n]
    by (cases "isIpInNetwork n (networkAddress s) (subnetMask s)") (auto simp add: submit_def)
qed

lemma submit_history_length: "length (submissions (submit raw s)) = length (submissions s) + 1"
  using submit_history [of raw s] by auto

lemma submit_network:
  "networkAddress (submit raw s) = networkAddress s" "subnetMask (submit raw s) = subnetMask s"
  by (simp_all add: submit_def handleSubmit_network)

lemma rounds_flow:
  assumes "\<not> gameCompleted s" "correctAnswers s < 5"
    and "correctAnswers s + length rest \<le> 5" "rounds_correct rest s"
  shows "correctAnswers (rounds rest s) = correctAnswers s + length rest
       \<and> score (rounds rest s) = score s + length rest
       \<and> totalAttempts (rounds rest s) = totalAttempts s + length rest
       \<and> length (submissions (rounds rest s)) = length (submissions s) + length rest
       \<and> gameCompleted (rounds rest s) = (correctAnswers s + length rest \<ge> 5)"
  using assms
proof (induction rest arbitrary: s)
  case Nil
  then show ?case by simp
next
  case (Cons x rest)
  obtain d raw where x: "x = (d, raw)" by (cases x)
  let ?s1 = "continueToNextQuestion d s"
  let ?s2 = "submit raw ?s1"
  note f1 = continue_fields [of d s]
  from Cons.prems(4) have j: "judged_correct raw ?s1" and rc: "rounds_correct rest ?s2"
    by (simp_all add: x)
  note e = submit_judged [OF j] submit_total [of raw ?s1] submit_history_length [of raw ?s1]
  show ?case
  proof (cases "correctAnswers s + 1 \<ge> 5")
    case True
    with Cons.prems(3) have "length rest = 0" by (simp del: length_0_conv)
    then have "rest = []" by simp
    with True e f1 show ?thesis
      by (simp add: x)
  next
    case False
    with e f1 Cons.prems(1) have p: "\<not> gameCompleted ?s2" "correctAnswers ?s2 < 5"
      "correctAnswers ?s2 + length rest \<le> 5"
      using Cons.prems(3) by simp_all
    from Cons.IH [OF p rc] e f1 show ?thesis
      by (simp add: x)
  qed
qed

lemma handler_completed:
  assumes "gameCompleted s" "\<not> is_reset e"
  shows "gameCompleted (handler e s)"
proof (cases e)
  case (TypeInput t)
  with assms show ?thesis by simp
next
  case (KeyPress key)
  with assms show ?thesis by (simp add: handleKeyPress_def)
next
  case ClickSubmit
  from submit_completed [OF assms(1), of "userInput s"] show ?thesis
    by (simp add: ClickSubmit submit_def)
next
  case (ClickContinue d)
  with assms show ?thesis by (simp add: continue_fields)
next
  case (ClickReset d)
  with assms show ?thesis by simp
qed

lemma run_handlers_completed:
  "gameCompleted s \<Longrightarrow> \<forall>e\<in>set es. \<not> is_reset e \<Longrightarrow> gameCompleted (run_handlers es s)"
  by (induction es arbitrary: s) (simp_all add: handler_completed)

lemma zero_answer_judged:
  "networkAddress s = ''0.0.0.0'' \<Longrightarrow> subnetMask s = ''255.255.255.0''
   \<Longrightarrow> judged_correct ''0.0.0.9'' s"
proof -
  assume n: "networkAddress s = ''0.0.0.0''" "subnetMask s = ''255.255.255.0''"
  have v: "(case validateIpAddress ''0.0.0.9'' of Inl e \<Rightarrow> False
      | Inr n \<Rightarrow> isIpInNetwork n ''0.0.0.0'' ''255.255.255.0'')"
    by code_simp
  then show ?thesis
    by (simp add: judged_correct_def n split: sum.splits)
qed

lemma fresh_zero_network:
  "networkAddress (fresh (Abs_random 0, Abs_random 0, Abs_random 0, Abs_random 0)) = ''0.0.0.0''"
  "subnetMask (fresh (Abs_random 0, Abs_random 0, Abs_random 0, Abs_random 0)) = ''255.255.255.0''"
  by (simp_all only: fresh_def initGame_zero)

lemma continue_zero_network:
  assumes "networkAddress s = ''0.0.0.0''" "subnetMask s = ''255.255.255.0''"
  shows "networkAddress (continueToNextQuestion (Abs_random 0, Abs_random 0, Abs_random 0, Abs_random 0) s)
         = ''0.0.0.0''"
    and "subnetMask (continueToNextQuestion (Abs_random 0, Abs_random 0, Abs_random 0, Abs_random 0) s)
         = ''255.255.255.0''"
proof -
  let ?z = "(Abs_random 0, Abs_random 0, Abs_random 0, Abs_random 0)"
  have "networkAddress (continueToNextQuestion ?z s) = ''0.0.0.0''
      \<and> subnetMask (continueToNextQuestion ?z s) = ''255.255.255.0''"
  proof (cases "correctAnswers s < 5")
    case True
    then have "continueToNextQuestion ?z s = initGame ?z s"
      by (simp only: continueToNextQuestion_def if_True)
    then show ?thesis
      by (simp only: initGame_zero)
  next
    case False
    then have "continueToNextQuestion ?z s = s"
      by (simp only: continueToNextQuestion_def if_False)
    with assms show ?thesis
      by simp
  qed
  then show "networkAddress (continueToNextQuestion ?z s) = ''0.0.0.0''"
    and "subnetMask (continueToNextQuestion ?z s) = ''255.255.255.0''"
    by (simp_all only:)
qed

lemma zero_rounds_correct:
  assumes "networkAddress s = ''0.0.0.0''" "subnetMask s = ''255.255.255.0''"
  shows "rounds_correct
           (replicate k ((Abs_random 0, Abs_random 0, Abs_random 0, Abs_random 0), ''0.0.0.9'')) s
         \<and> networkAddress (rounds
             (replicate k ((Abs_random 0, Abs_random 0, Abs_random 0, Abs_random 0), ''0.0.0.9'')) s)
             = ''0.0.0.0''
         \<and> subnetMask (rounds
             (replicate k ((Abs_random 0, Abs_random 0, Abs_random 0, Abs_random 0), ''0.0.0.9'')) s)
             = ''255.255.255.0''"
  using assms
proof (induction k arbitrary: s)
  case 0
  then show ?case by simp
next
  case (Suc k)
  let ?z = "(Abs_random 0, Abs_random 0, Abs_random 0, Abs_random 0)"
  note a = continue_zero_network [OF Suc.prems]
  have b: "networkAddress (submit ''0.0.0.9'' (continueToNextQuestion ?z s)) = ''0.0.0.0''"
    "subnetMask (submit ''0.0.0.9'' (continueToNextQuestion ?z s)) = ''255.255.255.0''"
    by (simp_all only: submit_network a)
  from zero_answer_judged [OF a] Suc.IH [OF b] show ?case
    by simp
qed

lemma zero_all_correct:
  assumes "networkAddress s = ''0.0.0.0''" "subnetMask s = ''255.255.255.0''"
  shows "all_correct
           (replicate k ((Abs_random 0, Abs_random 0, Abs_random 0, Abs_random 0), ''0.0.0.9'')) s"
  using assms
proof (induction k arbitrary: s)
  case 0
  then show ?case by simp
next
  case (Suc k)
  let ?z = "(Abs_random 0, Abs_random 0, Abs_random 0, Abs_random 0)"
  from Suc.prems have i: "networkAddress (initGame ?z s) = networkAddress s"
    "subnetMask (initGame ?z s) = subnetMask s"
    by (simp_all only: initGame_zero)
  from click_continue_network [OF i] Suc.prems
  have a: "networkAddress (ui_step (ClickContinue ?z) s) = ''0.0.0.0''"
    "subnetMask (ui_step (ClickContinue ?z) s) = ''255.255.255.0''"
    by simp_all
  have b: "networkAddress (enter ''0.0.0.9'' (ui_step (ClickContinue ?z) s)) = ''0.0.0.0''"
    "subnetMask (enter ''0.0.0.9'' (ui_step (ClickContinue ?z) s)) = ''255.255.255.0''"
    by (simp_all only: enter_network a)
  from zero_answer_judged [OF a] Suc.IH [OF b] show ?case
    by simp
qed

text \<open>
  C7.  A fresh session has \<open>totalAttempts = 0\<close>, \<open>score = 0\<close>, no history and is not completed.
  A correct submission followed by four rounds of \<open>continueToNextQuestion\<close> and a correct
  submission brings \<open>correctAnswers\<close> to 5 and sets \<open>gameCompleted\<close>, as calls of the
  functions and as events of the page; with fewer rounds the game is not completed.  The
  flag \<open>gameCompleted\<close> then stays set under every handler but \<open>handleReset\<close>, which clears
  it.  The page accepts no submission in a completed game: \<open>handleKeyPress\<close> does nothing
  and no event of the page other than Reset changes the state.  The function behind
  \<open>submit\<close> has no such guard: called in a completed state it adds 1 to \<open>totalAttempts\<close>,
  appends a submission to the history, and adds 1 to \<open>score\<close> and \<open>correctAnswers\<close> when the
  answer is judged correct.
\<close>

theorem five_correct_then_completed:
  "totalAttempts (fresh d) = 0 \<and> score (fresh d) = 0 \<and> correctAnswers (fresh d) = 0
   \<and> \<not> gameCompleted (fresh d) \<and> submissions (fresh d) = []
   \<and> (judged_correct r (fresh d) \<and> length rest = 4 \<and> rounds_correct rest (submit r (fresh d)) \<longrightarrow>
        correctAnswers (rounds rest (submit r (fresh d))) = 5
        \<and> score (rounds rest (submit r (fresh d))) = 5
        \<and> totalAttempts (rounds rest (submit r (fresh d))) = 5
        \<and> length (submissions (rounds rest (submit r (fresh d)))) = 5
        \<and> gameCompleted (rounds rest (submit r (fresh d))))
   \<and> (judged_correct r (fresh d) \<and> length rest < 4 \<and> rounds_correct rest (submit r (fresh d)) \<longrightarrow>
        correctAnswers (rounds rest (submit r (fresh d))) = 1 + length rest
        \<and> \<not> gameCompleted (rounds rest (submit r (fresh d))))
   \<and> (judged_correct r (fresh d) \<and> length rest = 4 \<and> all_correct rest (enter r (fresh d)) \<longrightarrow>
        correctAnswers (play rest (enter r (fresh d))) = 5
        \<and> score (play rest (enter r (fresh d))) = 5
        \<and> totalAttempts (play rest (enter r (fresh d))) = 5
        \<and> gameCompleted (play rest (enter r (fresh d))))
   \<and> (judged_correct r (fresh d) \<and> length rest < 4 \<and> all_correct rest (enter r (fresh d)) \<longrightarrow>
        correctAnswers (play rest (enter r (fresh d))) = 1 + length rest
        \<and> \<not> gameCompleted (play rest (enter r (fresh d))))
   \<and> (gameCompleted s \<longrightarrow>
        gameCompleted (submit raw s)
        \<and> totalAttempts (submit raw s) = totalAttempts s + 1
        \<and> (\<exists>x. submissions (submit raw s)
               = submissions s @ [\<lparr> response = x, attemptNumber = totalAttempts s + 1 \<rparr>])
        \<and> score (submit raw s) = score s + (if judged_correct raw s then 1 else 0)
        \<and> correctAnswers (submit raw s)
            = correctAnswers s + (if judged_correct raw s then 1 else 0)
        \<and> gameCompleted (continueToNextQuestion d' s))
   \<and> (gameCompleted s \<and> (\<forall>e\<in>set es. \<not> is_reset e) \<longrightarrow> gameCompleted (run_handlers es s))
   \<and> (gameCompleted s \<longrightarrow>
        handleKeyPress key s = s \<and> ui_step (KeyPress key) s = s \<and> ui_step ClickSubmit s = s
        \<and> ui_step (TypeInput raw) s = s \<and> ui_step (ClickContinue d') s = s
        \<and> enter raw s = s)
   \<and> (gameCompleted s \<and> (\<forall>e\<in>set es. \<not> is_reset e) \<longrightarrow> run_ui es s = s)
   \<and> \<not> gameCompleted (handleReset d' s)
   \<and> \<not> gameCompleted (ui_step (ClickReset d') s)"
proof -
  note f = fresh_fields [of d]
  have calls: "correctAnswers (rounds rest (submit r (fresh d))) = 1 + length rest
      \<and> score (rounds rest (submit r (fresh d))) = 1 + length rest
      \<and> totalAttempts (rounds rest (submit r (fresh d))) = 1 + length rest
      \<and> length (submissions (rounds rest (submit r (fresh d)))) = 1 + length rest
      \<and> gameCompleted (rounds rest (submit r (fresh d))) = (1 + length rest \<ge> 5)"
    if h: "judged_correct r (fresh d)" "length rest \<le> 4" "rounds_correct rest (submit r (fresh d))"
  proof -
    note e = submit_judged [OF h(1), unfolded f] submit_total [of r "fresh d", unfolded f]
      submit_history_length [of r "fresh d", unfolded f]
    from e h(2) have p: "\<not> gameCompleted (submit r (fresh d))"
      "correctAnswers (submit r (fresh d)) < 5"
      "correctAnswers (submit r (fresh d)) + length rest \<le> 5"
      by simp_all
    from rounds_flow [OF p h(3)] e show ?thesis
      by simp
  qed
  have page: "correctAnswers (play rest (enter r (fresh d))) = 1 + length rest
      \<and> score (play rest (enter r (fresh d))) = 1 + length rest
      \<and> totalAttempts (play rest (enter r (fresh d))) = 1 + length rest
      \<and> gameCompleted (play rest (enter r (fresh d))) = (1 + length rest \<ge> 5)"
    if h: "judged_correct r (fresh d)" "length rest \<le> 4" "all_correct rest (enter r (fresh d))"
  proof -
    have o: "\<not> gameCompleted (fresh d)" "\<not> waitingForContinue (fresh d)"
      by (simp_all add: f)
    note e = enter_correct [OF o h(1), unfolded f]
    from e h(2) have p: "\<not> gameCompleted (enter r (fresh d))" "waitingForContinue (enter r (fresh d))"
      "correctAnswers (enter r (fresh d)) < 5"
      "correctAnswers (enter r (fresh d)) + length rest \<le> 5"
      by simp_all
    from play_all_correct [OF p h(3)] e show ?thesis
      by simp
  qed
  have 1: "correctAnswers (rounds rest (submit r (fresh d))) = 5
        \<and> score (rounds rest (submit r (fresh d))) = 5
        \<and> totalAttempts (rounds rest (submit r (fresh d))) = 5
        \<and> length (submissions (rounds rest (submit r (fresh d)))) = 5
        \<and> gameCompleted (rounds rest (submit r (fresh d)))"
    if "judged_correct r (fresh d) \<and> length rest = 4 \<and> rounds_correct rest (submit r (fresh d))"
    using that calls by simp
  have 2: "correctAnswers (rounds rest (submit r (fresh d))) = 1 + length rest
        \<and> \<not> gameCompleted (rounds rest (submit r (fresh d)))"
    if "judged_correct r (fresh d) \<and> length rest < 4 \<and> rounds_correct rest (submit r (fresh d))"
    using that calls by simp
  have 3: "correctAnswers (play rest (enter r (fresh d))) = 5
        \<and> score (play rest (enter r (fresh d))) = 5
        \<and> totalAttempts (play rest (enter r (fresh d))) = 5
        \<and> gameCompleted (play rest (enter r (fresh d)))"
    if "judged_correct r (fresh d) \<and> length rest = 4 \<and> all_correct rest (enter r (fresh d))"
    using that page by simp
  have 4: "correctAnswers (play rest (enter r (fresh d))) = 1 + length rest
        \<and> \<not> gameCompleted (play rest (enter r (fresh d)))"
    if "judged_correct r (fresh d) \<and> length rest < 4 \<and> all_correct rest (enter r (fresh d))"
    using that page by simp
  have 5: "gameCompleted (submit raw s)
        \<and> totalAttempts (submit raw s) = totalAttempts s + 1
        \<and> (\<exists>x. submissions (submit raw s)
               = submissions s @ [\<lparr> response = x, attemptNumber = totalAttempts s + 1 \<rparr>])
        \<and> score (submit raw s) = score s + (if judged_correct raw s then 1 else 0)
        \<and> correctAnswers (submit raw s)
            = correctAnswers s + (if judged_correct raw s then 1 else 0)
        \<and> gameCompleted (continueToNextQuestion d' s)"
    if "gameCompleted s"
    using that
    by (intro conjI submit_completed submit_total submit_history submit_counters)
      (simp_all add: continue_fields)
  have 6: "gameCompleted (run_handlers es s)" if "gameCompleted s \<and> (\<forall>e\<in>set es. \<not> is_reset e)"
    using that by (simp add: run_handlers_completed)
  have 7: "handleKeyPress key s = s \<and> ui_step (KeyPress key) s = s \<and> ui_step ClickSubmit s = s
        \<and> ui_step (TypeInput raw) s = s \<and> ui_step (ClickContinue d') s = s
        \<and> enter raw s = s"
    if "gameCompleted s"
    using that by (simp add: handleKeyPress_def ui_step_def enter_def)
  have 8: "run_ui es s = s" if "gameCompleted s \<and> (\<forall>e\<in>set es. \<not> is_reset e)"
    using that by (simp add: completed_run_ui)
  have 9: "\<not> gameCompleted (handleReset d' s)"
    by (simp only: handleReset_fields) simp
  have 10: "\<not> gameCompleted (ui_step (ClickReset d') s)"
    by (simp only: ui_step_def enabled.simps if_True handler.simps handleReset_fields) simp
  show ?thesis
    by (intro conjI; (rule impI)?;
        (erule 1 | erule 2 | erule 3 | erule 4 | erule 5 | erule 6 | erule 7 | erule 8
         | rule 9 | rule 10 | simp add: f))
qed

text \<open>A play with every draw 0: the network is 0.0.0.0 / 255.255.255.0 in each round and
  0.0.0.9 is a correct answer.  After five correct answers the game is completed, Enter
  on the page changes nothing, and a further call of \<open>submit\<close> counts a sixth attempt.\<close>

theorem five_correct_then_completed_witness:
  "judged_correct ''0.0.0.9'' (fresh (Abs_random 0, Abs_random 0, Abs_random 0, Abs_random 0))
   \<and> rounds_correct (replicate 4 ((Abs_random 0, Abs_random 0, Abs_random 0, Abs_random 0), ''0.0.0.9''))
        (submit ''0.0.0.9'' (fresh (Abs_random 0, Abs_random 0, Abs_random 0, Abs_random 0)))
   \<and> all_correct (replicate 4 ((Abs_random 0, Abs_random 0, Abs_random 0, Abs_random 0), ''0.0.0.9''))
        (enter ''0.0.0.9'' (fresh (Abs_random 0, Abs_random 0, Abs_random 0, Abs_random 0)))
   \<and> correctAnswers (rounds (replicate 4 ((Abs_random 0, Abs_random 0, Abs_random 0, Abs_random 0), ''0.0.0.9''))
        (submit ''0.0.0.9'' (fresh (Abs_random 0, Abs_random 0, Abs_random 0, Abs_random 0)))) = 5
   \<and> gameCompleted (rounds (replicate 4 ((Abs_random 0, Abs_random 0, Abs_random 0, Abs_random 0), ''0.0.0.9''))
        (submit ''0.0.0.9'' (fresh (Abs_random 0, Abs_random 0, Abs_random 0, Abs_random 0))))
   \<and> correctAnswers (play (replicate 4 ((Abs_random 0, Abs_random 0, Abs_random 0, Abs_random 0), ''0.0.0.9''))
        (enter ''0.0.0.9'' (fresh (Abs_random 0, Abs_random 0, Abs_random 0, Abs_random 0)))) = 5
   \<and> gameCompleted (play (replicate 4 ((Abs_random 0, Abs_random 0, Abs_random 0, Abs_random 0), ''0.0.0.9''))
        (enter ''0.0.0.9'' (fresh (Abs_random 0, Abs_random 0, Abs_random 0, Abs_random 0))))
   \<and> enter ''0.0.0.9'' (play (replicate 4 ((Abs_random 0, Abs_random 0, Abs_random 0, Abs_random 0), ''0.0.0.9''))
        (enter ''0.0.0.9'' (fresh (Abs_random 0, Abs_random 0, Abs_random 0, Abs_random 0))))
       = (play (replicate 4 ((Abs_random 0, Abs_random 0, Abs_random 0, Abs_random 0), ''0.0.0.9''))
        (enter ''0.0.0.9'' (fresh (Abs_random 0, Abs_random 0, Abs_random 0, Abs_random 0))))
   \<and> gameCompleted (submit ''0.0.0.9'' (rounds (replicate 4 ((Abs_random 0, Abs_random 0, Abs_random 0, Abs_random 0), ''0.0.0.9''))
        (submit ''0.0.0.9'' (fresh (Abs_random 0, Abs_random 0, Abs_random 0, Abs_random 0)))))
   \<and> totalAttempts (submit ''0.0.0.9'' (rounds (replicate 4 ((Abs_random 0, Abs_random 0, Abs_random 0, Abs_random 0), ''0.0.0.9''))
        (submit ''0.0.0.9'' (fresh (Abs_random 0, Abs_random 0, Abs_random 0, Abs_random 0)))))
       = totalAttempts (rounds (replicate 4 ((Abs_random 0, Abs_random 0, Abs_random 0, Abs_random 0), ''0.0.0.9''))
        (submit ''0.0.0.9'' (fresh (Abs_random 0, Abs_random 0, Abs_random 0, Abs_random 0)))) + 1"
proof -
  let ?z = "(Abs_random 0, Abs_random 0, Abs_random 0, Abs_random 0)"
  let ?r = "''0.0.0.9''"
  let ?rest = "replicate 4 (?z, ?r)"
  let ?s = "rounds ?rest (submit ?r (fresh ?z))"
  let ?p = "play ?rest (enter ?r (fresh ?z))"
  have h1: "judged_correct ?r (fresh ?z)"
    by (rule zero_answer_judged) (rule fresh_zero_network)+
  have h2: "length ?rest = 4"
    by simp
  have n1: "networkAddress (submit ?r (fresh ?z)) = ''0.0.0.0''"
    "subnetMask (submit ?r (fresh ?z)) = ''255.255.255.0''"
    by (simp_all only: submit_network fresh_zero_network)
  have n2: "networkAddress (enter ?r (fresh ?z)) = ''0.0.0.0''"
    "subnetMask (enter ?r (fresh ?z)) = ''255.255.255.0''"
    by (simp_all only: enter_network fresh_zero_network)
  have h3: "rounds_correct ?rest (submit ?r (fresh ?z))"
    using zero_rounds_correct [OF n1, of 4] by (rule conjunct1)
  have h4: "all_correct ?rest (enter ?r (fresh ?z))"
    using n2 by (rule zero_all_correct)
  note T = five_correct_then_completed [of ?z ?r ?rest ?s ?r ?z "[]" "''Enter''"]
  note U = five_correct_then_completed [of ?z ?r ?rest ?p ?r ?z "[]" "''Enter''"]
  from T h1 h2 h3 have c: "correctAnswers ?s = 5" and g: "gameCompleted ?s"
    by blast+
  from U h1 h2 h4 have c': "correctAnswers ?p = 5" and g': "gameCompleted ?p"
    by blast+
  from U g' have t: "enter ?r ?p = ?p"
    by blast
  from T g have u: "gameCompleted (submit ?r ?s)"
    "totalAttempts (submit ?r ?s) = totalAttempts ?s + 1"
    by blast+
  from h1 h3 h4 c g c' g' t u show ?thesis
    by (intro conjI)
qed

text \<open>The sixth submission is not a no-op of \<open>submit\<close>: in the completed state reached by
  five correct submissions, one more correct submission gives 6 attempts, score 6,
  6 correct answers and 6 entries of the history.\<close>

theorem submit_after_completion_counts:
  "gameCompleted (rounds (replicate 4 ((Abs_random 0, Abs_random 0, Abs_random 0, Abs_random 0), ''0.0.0.9''))
        (submit ''0.0.0.9'' (fresh (Abs_random 0, Abs_random 0, Abs_random 0, Abs_random 0))))
   \<and> totalAttempts (rounds (replicate 4 ((Abs_random 0, Abs_random 0, Abs_random 0, Abs_random 0), ''0.0.0.9''))
        (submit ''0.0.0.9'' (fresh (Abs_random 0, Abs_random 0, Abs_random 0, Abs_random 0)))) = 5
   \<and> score (rounds (replicate 4 ((Abs_random 0, Abs_random 0, Abs_random 0, Abs_random 0), ''0.0.0.9''))
        (submit ''0.0.0.9'' (fresh (Abs_random 0, Abs_random 0, Abs_random 0, Abs_random 0)))) = 5
   \<and> correctAnswers (rounds (replicate 4 ((Abs_random 0, Abs_random 0, Abs_random 0, Abs_random 0), ''0.0.0.9''))
        (submit ''0.0.0.9'' (fresh (Abs_random 0, Abs_random 0, Abs_random 0, Abs_random 0)))) = 5
   \<and> length (submissions (rounds (replicate 4 ((Abs_random 0, Abs_random 0, Abs_random 0, Abs_random 0), ''0.0.0.9''))
        (submit ''0.0.0.9'' (fresh (Abs_random 0, Abs_random 0, Abs_random 0, Abs_random 0))))) = 5
   \<and> totalAttempts (submit ''0.0.0.9'' (rounds (replicate 4 ((Abs_random 0, Abs_random 0, Abs_random 0, Abs_random 0), ''0.0.0.9''))
        (submit ''0.0.0.9'' (fresh (Abs_random 0, Abs_random 0, Abs_random 0, Abs_random 0))))) = 6
   \<and> score (submit ''0.0.0.9'' (rounds (replicate 4 ((Abs_random 0, Abs_random 0, Abs_random 0, Abs_random 0), ''0.0.0.9''))
        (submit ''0.0.0.9'' (fresh (Abs_random 0, Abs_random 0, Abs_random 0, Abs_random 0))))) = 6
   \<and> correctAnswers (submit ''0.0.0.9'' (rounds (replicate 4 ((Abs_random 0, Abs_random 0, Abs_random 0, Abs_random 0), ''0.0.0.9''))
        (submit ''0.0.0.9'' (fresh (Abs_random 0, Abs_random 0, Abs_random 0, Abs_random 0))))) = 6
   \<and> length (submissions (submit ''0.0.0.9'' (rounds (replicate 4 ((Abs_random 0, Abs_random 0, Abs_random 0, Abs_random 0), ''0.0.0.9''))
        (submit ''0.0.0.9'' (fresh (Abs_random 0, Abs_random 0, Abs_random 0, Abs_random 0)))))) = 6
   \<and> submit ''0.0.0.9'' (rounds (replicate 4 ((Abs_random 0, Abs_random 0, Abs_random 0, Abs_random 0), ''0.0.0.9''))
        (submit ''0.0.0.9'' (fresh (Abs_random 0, Abs_random 0, Abs_random 0, Abs_random 0))))
       \<noteq> (rounds (replicate 4 ((Abs_random 0, Abs_random 0, Abs_random 0, Abs_random 0), ''0.0.0.9''))
        (submit ''0.0.0.9'' (fresh (Abs_random 0, Abs_random 0, Abs_random 0, Abs_random 0))))"
proof -
  let ?z = "(Abs_random 0, Abs_random 0, Abs_random 0, Abs_random 0)"
  let ?r = "''0.0.0.9''"
  let ?rest = "replicate 4 (?z, ?r)"
  let ?s1 = "submit ?r (fresh ?z)"
  let ?s = "rounds ?rest ?s1"
  note f = fresh_fields [of ?z]
  have h1: "judged_correct ?r (fresh ?z)"
    by (rule zero_answer_judged) (rule fresh_zero_network)+
  have n1: "networkAddress ?s1 = ''0.0.0.0''" "subnetMask ?s1 = ''255.255.255.0''"
    by (simp_all only: submit_network fresh_zero_network)
  note z = zero_rounds_correct [OF n1, of 4]
  from z have h3: "rounds_correct ?rest ?s1"
    and n: "networkAddress ?s = ''0.0.0.0''" "subnetMask ?s = ''255.255.255.0''"
    by (simp_all only:)
  note e = submit_judged [OF h1, unfolded f] submit_total [of ?r "fresh ?z", unfolded f]
    submit_history_length [of ?r "fresh ?z", unfolded f]
  from e have p: "\<not> gameCompleted ?s1" "correctAnswers ?s1 < 5"
    "correctAnswers ?s1 + length ?rest \<le> 5"
    by simp_all
  from rounds_flow [OF p h3] e
  have five: "gameCompleted ?s" "totalAttempts ?s = 5" "score ?s = 5" "correctAnswers ?s = 5"
    "length (submissions ?s) = 5"
    by simp_all
  have j: "judged_correct ?r ?s"
    using n by (rule zero_answer_judged)
  from submit_judged [OF j] submit_total [of ?r ?s] submit_history_length [of ?r ?s] five
  have six: "totalAttempts (submit ?r ?s) = 6" "score (submit ?r ?s) = 6"
    "correctAnswers (submit ?r ?s) = 6" "length (submissions (submit ?r ?s)) = 6"
    by simp_all
  from six(1) five(2) have ne: "submit ?r ?s \<noteq> ?s"
    by auto
  from five six ne show ?thesis
    by (intro conjI)
qed

subsection \<open>Continue\<close>

text \<open>
  C8 (as amended).  \<open>continueToNextQuestion\<close> leaves the state unchanged exactly under its
  own guard, \<open>correctAnswers \<ge> 5\<close>.  Below 5 it runs \<open>initGame\<close> whatever the state:
  a new mask and network address, an empty text box, \<open>waitingForContinue\<close> cleared.  The
  counters, the history and \<open>gameCompleted\<close> are unchanged in every case.  The page shows
  the Continue button only while \<open>waitingForContinue\<close> holds in a game not completed, so
  a click in any other state changes nothing.
\<close>

theorem continueToNextQuestion_guard:
  "(5 \<le> correctAnswers s \<longrightarrow> continueToNextQuestion d s = s)
   \<and> (correctAnswers s < 5 \<longrightarrow>
        continueToNextQuestion d s = initGame d s
        \<and> \<not> waitingForContinue (continueToNextQuestion d s)
        \<and> userInput (continueToNextQuestion d s) = []
        \<and> subnetMask (continueToNextQuestion d s) = generateRandomSubnetMask (fst d))
   \<and> score (continueToNextQuestion d s) = score s
   \<and> correctAnswers (continueToNextQuestion d s) = correctAnswers s
   \<and> totalAttempts (continueToNextQuestion d s) = totalAttempts s
   \<and> submissions (continueToNextQuestion d s) = submissions s
   \<and> gameCompleted (continueToNextQuestion d s) = gameCompleted s
   \<and> enabled (ClickContinue d) s = (\<not> gameCompleted s \<and> waitingForContinue s)
   \<and> (\<not> (\<not> gameCompleted s \<and> waitingForContinue s) \<longrightarrow> ui_step (ClickContinue d) s = s)
   \<and> (\<not> gameCompleted s \<and> waitingForContinue s \<and> correctAnswers s < 5 \<longrightarrow>
        ui_step (ClickContinue d) s = initGame d s)"
proof -
  have 1: "continueToNextQuestion d s = s" if "5 \<le> correctAnswers s"
    using that by (simp add: continueToNextQuestion_def)
  have 2: "continueToNextQuestion d s = initGame d s
        \<and> \<not> waitingForContinue (continueToNextQuestion d s)
        \<and> userInput (continueToNextQuestion d s) = []
        \<and> subnetMask (continueToNextQuestion d s) = generateRandomSubnetMask (fst d)"
    if "correctAnswers s < 5"
    using that by (cases d) (simp add: continueToNextQuestion_def Let_def)
  have 3: "ui_step (ClickContinue d) s = s" if "\<not> (\<not> gameCompleted s \<and> waitingForContinue s)"
    using that by (auto simp add: ui_step_def)
  have 4: "ui_step (ClickContinue d) s = initGame d s"
    if "\<not> gameCompleted s \<and> waitingForContinue s \<and> correctAnswers s < 5"
    using that by (simp add: click_continue_waiting)
  show ?thesis
    by (intro conjI; (rule impI)?;
        (erule 1 | erule 2 | erule 3 | erule 4 | rule continue_fields | simp))
qed

text \<open>C8 as stated fails for the function: in a fresh session, which awaits input,
  \<open>continueToNextQuestion\<close> replaces the mask.\<close>

theorem continueToNextQuestion_regenerates_while_awaiting_input:
  "\<not> waitingForContinue (fresh (Abs_random 0, Abs_random 0, Abs_random 0, Abs_random 0))
   \<and> subnetMask (continueToNextQuestion (Abs_random (1 / 2), Abs_random 0, Abs_random 0, Abs_random 0)
        (fresh (Abs_random 0, Abs_random 0, Abs_random 0, Abs_random 0)))
     \<noteq> subnetMask (fresh (Abs_random 0, Abs_random 0, Abs_random 0, Abs_random 0))"
proof -
  let ?z = "(Abs_random 0, Abs_random 0, Abs_random 0, Abs_random 0)"
  let ?h = "(Abs_random (1 / 2), Abs_random 0, Abs_random 0, Abs_random 0)"
  have a: "subnetMask (fresh ?z) = ''255.255.255.0''"
    by (simp only: fresh_def initGame_zero)
  have "correctAnswers (fresh ?z) < 5"
    by (simp add: fresh_fields)
  then have "subnetMask (continueToNextQuestion ?h (fresh ?z)) = generateRandomSubnetMask (Abs_random (1 / 2))"
    by (simp add: continueToNextQuestion_def Let_def)
  then have b: "subnetMask (continueToNextQuestion ?h (fresh ?z)) = ''255.255.255.192''"
    by (simp only: mask_draw_half)
  have c: "\<not> waitingForContinue (fresh ?z)"
    by (simp add: fresh_fields)
  show ?thesis
    unfolding a b using c by simp
qed

theorem continueToNextQuestion_guard_witness:
  "5 \<le> correctAnswers (initial_state\<lparr>correctAnswers := 5, gameCompleted := True\<rparr>)
   \<and> continueToNextQuestion (Abs_random 0, Abs_random 0, Abs_random 0, Abs_random 0)
        (initial_state\<lparr>correctAnswers := 5, gameCompleted := True\<rparr>)
       = initial_state\<lparr>correctAnswers := 5, gameCompleted := True\<rparr>
   \<and> ui_step (ClickContinue (Abs_random 0, Abs_random 0, Abs_random 0, Abs_random 0))
        (initial_state\<lparr>correctAnswers := 5, gameCompleted := True\<rparr>)
       = initial_state\<lparr>correctAnswers := 5, gameCompleted := True\<rparr>
   \<and> correctAnswers (initial_state\<lparr>waitingForContinue := True\<rparr>) < 5
   \<and> subnetMask (continueToNextQuestion (Abs_random 0, Abs_random 0, Abs_random 0, Abs_random 0)
        (initial_state\<lparr>waitingForContinue := True\<rparr>)) = ''255.255.255.0''
   \<and> \<not> waitingForContinue (continueToNextQuestion (Abs_random 0, Abs_random 0, Abs_random 0, Abs_random 0)
        (initial_state\<lparr>waitingForContinue := True\<rparr>))"
proof -
  let ?z = "(Abs_random 0, Abs_random 0, Abs_random 0, Abs_random 0)"
  let ?done = "initial_state\<lparr>correctAnswers := 5, gameCompleted := True\<rparr>"
  let ?wait = "initial_state\<lparr>waitingForContinue := True\<rparr>"
  have a: "5 \<le> correctAnswers ?done" "\<not> (\<not> gameCompleted ?done \<and> waitingForContinue ?done)"
    by simp_all
  have b: "correctAnswers ?wait < 5"
    by (simp add: initial_state_def)
  note T1 = continueToNextQuestion_guard [of ?done ?z]
  note T2 = continueToNextQuestion_guard [of ?wait ?z]
  from T1 a have 1: "continueToNextQuestion ?z ?done = ?done" "ui_step (ClickContinue ?z) ?done = ?done"
    by blast+
  from T2 b have 2: "subnetMask (continueToNextQuestion ?z ?wait) = generateRandomSubnetMask (fst ?z)"
    "\<not> waitingForContinue (continueToNextQuestion ?z ?wait)"
    by blast+
  from 2(1) have 3: "subnetMask (continueToNextQuestion ?z ?wait) = ''255.255.255.0''"
    by (simp only: fst_conv mask_draw_0)
  from a(1) 1 b 3 2(2) show ?thesis
    by (intro conjI)
qed

section \<open>The address generator\<close>











end
